theory Spec2Isabelle
  imports Complex_Main "HOL-Library.Word" "HOL-Library.Log_Nat" "HOL-Library.Stream"
begin

section \<open>Durations and floating-point numbers\<close>

text \<open>
  Go's \<^verbatim>\<open>time.Duration\<close> is an \<^verbatim>\<open>int64\<close> count of nanoseconds: arithmetic wraps
  around at 64 bits and the comparisons are the signed ones.
\<close>

type_synonym duration = "64 word"

definition Millisecond :: duration where
  "Millisecond = 1000000"

definition Minute :: duration where
  "Minute = 60000000000"

text \<open>
  A \<^verbatim>\<open>float64\<close> is either finite, \<open>Fin m e\<close> standing for the dyadic number
  \<open>m * 2 ^ e\<close>, or one of the three special values. The sign of a zero is not
  represented: no operation of this package tells the two zeros apart.
\<close>

datatype float64 = Fin int int | PosInf | NegInf | NaN

definition valof :: "float64 \<Rightarrow> real" where
  "valof x = (case x of Fin m e \<Rightarrow> real_of_int m * 2 powr real_of_int e | _ \<Rightarrow> 0)"

definition is_finite :: "float64 \<Rightarrow> bool" where
  "is_finite x = (case x of Fin m e \<Rightarrow> True | _ \<Rightarrow> False)"

text \<open>Comparison of two dyadic numbers, on integers scaled to the smaller exponent.\<close>

definition scaled :: "int \<Rightarrow> int \<Rightarrow> int \<Rightarrow> int" where
  "scaled m e e0 = m * 2 ^ nat (e - e0)"

fun flt :: "float64 \<Rightarrow> float64 \<Rightarrow> bool" where
  "flt NaN y = False"
| "flt x NaN = False"
| "flt (Fin m1 e1) (Fin m2 e2) = (scaled m1 e1 (min e1 e2) < scaled m2 e2 (min e1 e2))"
| "flt (Fin m1 e1) PosInf = True"
| "flt (Fin m1 e1) NegInf = False"
| "flt PosInf y = False"
| "flt NegInf (Fin m2 e2) = True"
| "flt NegInf PosInf = True"
| "flt NegInf NegInf = False"

fun fge :: "float64 \<Rightarrow> float64 \<Rightarrow> bool" where
  "fge NaN y = False"
| "fge x NaN = False"
| "fge (Fin m1 e1) (Fin m2 e2) = (scaled m2 e2 (min e1 e2) \<le> scaled m1 e1 (min e1 e2))"
| "fge (Fin m1 e1) PosInf = False"
| "fge (Fin m1 e1) NegInf = True"
| "fge PosInf y = True"
| "fge NegInf (Fin m2 e2) = False"
| "fge NegInf PosInf = False"
| "fge NegInf NegInf = True"

text \<open>
  Rounding to the nearest \<^verbatim>\<open>float64\<close>, ties to even: \<open>fl64 m e\<close> is the
  \<^verbatim>\<open>float64\<close> nearest to the exact number \<open>m * 2 ^ e\<close>. The significand keeps 53
  bits, the exponent of the last place is never below \<open>-1074\<close> (subnormal numbers), and
  a rounded magnitude of \<open>2 ^ 1024\<close> or more overflows to an infinity. Every arithmetic
  operation rounds its exact result once; a product and a sum are not fused into one
  operation.
\<close>

definition shift_rne :: "int \<Rightarrow> nat \<Rightarrow> int" where
  "shift_rne a k =
     (let q = a div 2 ^ k; r = a mod 2 ^ k
      in if 2 ^ k < 2 * r then q + 1
         else if 2 * r = 2 ^ k \<and> q mod 2 = 1 then q + 1
         else q)"

definition overflow :: "int \<Rightarrow> float64" where
  "overflow m = (if m < 0 then NegInf else PosInf)"

definition fl64 :: "int \<Rightarrow> int \<Rightarrow> float64" where
  "fl64 m e =
     (let a = \<bar>m\<bar>; k = max (bitlen a - 53) (- 1074 - e)
      in if k \<le> 0
         then (if 0 < a \<and> 1024 < bitlen a + e then overflow m else Fin m e)
         else (let q = shift_rne a (nat k)
               in if 1024 < bitlen q + (e + k) then overflow m
                  else Fin (sgn m * q) (e + k)))"

fun fmul :: "float64 \<Rightarrow> float64 \<Rightarrow> float64" where
  "fmul NaN y = NaN"
| "fmul x NaN = NaN"
| "fmul (Fin m1 e1) (Fin m2 e2) = fl64 (m1 * m2) (e1 + e2)"
| "fmul (Fin m1 e1) PosInf = (if m1 = 0 then NaN else overflow m1)"
| "fmul (Fin m1 e1) NegInf = (if m1 = 0 then NaN else overflow (- m1))"
| "fmul PosInf (Fin m2 e2) = (if m2 = 0 then NaN else overflow m2)"
| "fmul NegInf (Fin m2 e2) = (if m2 = 0 then NaN else overflow (- m2))"
| "fmul PosInf PosInf = PosInf"
| "fmul PosInf NegInf = NegInf"
| "fmul NegInf PosInf = NegInf"
| "fmul NegInf NegInf = PosInf"

fun fadd :: "float64 \<Rightarrow> float64 \<Rightarrow> float64" where
  "fadd NaN y = NaN"
| "fadd x NaN = NaN"
| "fadd (Fin m1 e1) (Fin m2 e2) =
     fl64 (scaled m1 e1 (min e1 e2) + scaled m2 e2 (min e1 e2)) (min e1 e2)"
| "fadd (Fin m1 e1) y = y"
| "fadd x (Fin m2 e2) = x"
| "fadd PosInf PosInf = PosInf"
| "fadd NegInf NegInf = NegInf"
| "fadd PosInf NegInf = NaN"
| "fadd NegInf PosInf = NaN"

fun fneg :: "float64 \<Rightarrow> float64" where
  "fneg (Fin m e) = Fin (- m) e"
| "fneg PosInf = NegInf"
| "fneg NegInf = PosInf"
| "fneg NaN = NaN"

definition fsub :: "float64 \<Rightarrow> float64 \<Rightarrow> float64" where
  "fsub x y = fadd x (fneg y)"

text \<open>The conversion \<^verbatim>\<open>float64(n)\<close> of an \<^verbatim>\<open>int64\<close>.\<close>

definition float64_of_int64 :: "64 word \<Rightarrow> float64" where
  "float64_of_int64 n = fl64 (sint n) 0"

text \<open>
  \<^verbatim>\<open>math.Round\<close>: the nearest integer, halves away from zero; the special values are
  returned as they are.
\<close>

fun math_Round :: "float64 \<Rightarrow> float64" where
  "math_Round (Fin m e) =
     (if 0 \<le> e then Fin m e
      else Fin (sgn m * ((2 * \<bar>m\<bar> + 2 ^ nat (- e)) div (2 * 2 ^ nat (- e)))) 0)"
| "math_Round x = x"

text \<open>
  The conversion \<^verbatim>\<open>int(x)\<close> of a \<^verbatim>\<open>float64\<close> (on a platform whose \<^verbatim>\<open>int\<close> has 64
  bits) drops the fraction. When the value does not fit the integer type, Go leaves the
  result to the implementation: the model returns \<open>None\<close> there.
\<close>

definition trunc_zero :: "int \<Rightarrow> int \<Rightarrow> int" where
  "trunc_zero m e = (if 0 \<le> e then m * 2 ^ nat e else sgn m * (\<bar>m\<bar> div 2 ^ nat (- e)))"

fun int_of_float64 :: "float64 \<Rightarrow> 64 word option" where
  "int_of_float64 (Fin m e) =
     (if - (2 ^ 63) \<le> trunc_zero m e \<and> trunc_zero m e < 2 ^ 63
      then Some (word_of_int (trunc_zero m e)) else None)"
| "int_of_float64 x = None"

section \<open>The backoff object and its options\<close>

record Backoff =
  delay :: duration
  baseDelay :: duration
  expLimit :: duration
  jitterFactor :: float64

definition defaultInitDelay :: duration where
  "defaultInitDelay = Millisecond * 100"

definition defaultBaseDelay :: duration where
  "defaultBaseDelay = Millisecond * 100"

definition defaultExpLimit :: duration where
  "defaultExpLimit = Minute * 3"

text \<open>The constant \<^verbatim>\<open>0.3\<close> as a \<^verbatim>\<open>float64\<close>: the nearest one to three tenths.\<close>

definition defaultJitterFactor :: float64 where
  "defaultJitterFactor = Fin 5404319552844595 (- 54)"

definition defaultBackoff :: Backoff where
  "defaultBackoff =
     \<lparr>delay = defaultInitDelay, baseDelay = defaultBaseDelay,
      expLimit = defaultExpLimit, jitterFactor = defaultJitterFactor\<rparr>"

text \<open>
  Errors: \<^verbatim>\<open>errors.New\<close> makes an error of one message, \<^verbatim>\<open>errors.Join\<close> drops the
  nil errors it is given and wraps the others, or returns nil when none is left. A nil
  error is \<open>None\<close>.
\<close>

datatype error = ErrorString string | JoinError "error list"

definition errors_New :: "string \<Rightarrow> error option" where
  "errors_New text = Some (ErrorString text)"

definition errors_Join :: "error option list \<Rightarrow> error option" where
  "errors_Join errs =
     (case List.map_filter id errs of [] \<Rightarrow> None | e # es \<Rightarrow> Some (JoinError (e # es)))"

text \<open>The messages an error carries, in order: the lines of its \<^verbatim>\<open>Error()\<close> text.\<close>

fun messages :: "error \<Rightarrow> string list" where
  "messages (ErrorString s) = [s]"
| "messages (JoinError es) = concat (map messages es)"

text \<open>
  An option is a closure over the object and the coercion flag; it returns its error
  together with the object as it has left it.
\<close>

type_synonym backoffOption = "Backoff \<Rightarrow> bool \<Rightarrow> error option \<times> Backoff"

definition WithInitialDelay :: "duration \<Rightarrow> backoffOption" where
  "WithInitialDelay d = (\<lambda>b coerce.
     if 0 \<le>s d then (None, b\<lparr>delay := d\<rparr>)
     else if coerce = False then (errors_New ''the initial delay must be >= 0'', b)
     else (None, b\<lparr>delay := 0\<rparr>))"

definition WithBaseDelay :: "duration \<Rightarrow> backoffOption" where
  "WithBaseDelay d = (\<lambda>b coerce.
     if 0 <s d then (None, b\<lparr>baseDelay := d\<rparr>)
     else if coerce = False then (errors_New ''the base delay must be > 0'', b)
     else (None, b))"

definition WithExponentialLimit :: "duration \<Rightarrow> backoffOption" where
  "WithExponentialLimit d = (\<lambda>b coerce.
     if 0 \<le>s d then (None, b\<lparr>expLimit := d\<rparr>)
     else if coerce = False
       then (errors_New ''the exponential backoff limit must be >= 0'', b)
     else (None, b\<lparr>expLimit := 0\<rparr>))"

definition WithJitterFactor :: "float64 \<Rightarrow> backoffOption" where
  "WithJitterFactor jf = (\<lambda>b coerce.
     if fge jf (Fin 0 0) \<and> flt jf (Fin 1 0) then (None, b\<lparr>jitterFactor := jf\<rparr>)
     else if coerce = False
       then (errors_New ''the jitterFactor must be in the range [0,1)'', b)
     else if flt jf (Fin 0 0) then (None, b\<lparr>jitterFactor := Fin 0 0\<rparr>)
     else (None, b))"

section \<open>The constructors\<close>

fun New_loop :: "backoffOption list \<Rightarrow> Backoff \<Rightarrow> error option \<Rightarrow> Backoff \<times> error option" where
  "New_loop [] b errs = (b, errs)"
| "New_loop (opt # options) b errs =
     (case opt b False of (err, b') \<Rightarrow> New_loop options b' (errors_Join [errs, err]))"

definition New :: "backoffOption list \<Rightarrow> error + Backoff" where
  "New options =
     (case New_loop options defaultBackoff None of
        (b, None) \<Rightarrow> Inr b
      | (b, Some errs) \<Rightarrow> Inl errs)"

fun CoerceNew_loop :: "backoffOption list \<Rightarrow> Backoff \<Rightarrow> Backoff" where
  "CoerceNew_loop [] b = b"
| "CoerceNew_loop (opt # options) b = CoerceNew_loop options (snd (opt b True))"

definition CoerceNew :: "backoffOption list \<Rightarrow> Backoff" where
  "CoerceNew options = CoerceNew_loop options defaultBackoff"

section \<open>Computing the delay\<close>

text \<open>
  The random source is the stream of the values \<^verbatim>\<open>rand.Float64()\<close> is going to
  return; a call takes the first one.
\<close>

type_synonym rand_source = "float64 stream"

definition rand_Float64 :: "rand_source \<Rightarrow> float64 \<times> rand_source" where
  "rand_Float64 r = (shd r, stl r)"

definition PeekDelay :: "Backoff \<Rightarrow> rand_source \<Rightarrow> duration \<times> Backoff \<times> rand_source" where
  "PeekDelay b r = (delay b, b, r)"

definition computeDelay ::
  "Backoff \<Rightarrow> rand_source \<Rightarrow> duration option \<times> Backoff \<times> rand_source" where
  "computeDelay b r =
     (case rand_Float64 r of (u, r') \<Rightarrow>
        (let j = fadd (Fin 1 0) (fmul (fsub u (Fin 1 (- 1))) (jitterFactor b));
             d = fmul (float64_of_int64 (delay b)) j;
             b' = (if delay b = 0 then b\<lparr>delay := baseDelay b\<rparr>
                   else if delay b <s expLimit b then b\<lparr>delay := delay b * 2\<rparr>
                   else b)
         in (int_of_float64 (math_Round d), b', r')))"

section \<open>Successive calls\<close>

text \<open>\<open>advance_n n\<close> calls \<^verbatim>\<open>computeDelay\<close> \<open>n\<close> times in a row, as a retry loop does.\<close>

fun advance_n :: "nat \<Rightarrow> Backoff \<Rightarrow> rand_source \<Rightarrow> Backoff \<times> rand_source" where
  "advance_n 0 b r = (b, r)"
| "advance_n (Suc n) b r =
     (case computeDelay b r of (d, b', r') \<Rightarrow> advance_n n b' r')"

text \<open>\<open>PeekDelay_n n\<close> calls \<^verbatim>\<open>PeekDelay\<close> \<open>n\<close> times in a row and collects the answers.\<close>

fun PeekDelay_n :: "nat \<Rightarrow> Backoff \<Rightarrow> rand_source \<Rightarrow> duration list \<times> Backoff \<times> rand_source" where
  "PeekDelay_n 0 b r = ([], b, r)"
| "PeekDelay_n (Suc n) b r =
     (case PeekDelay b r of (d, b', r') \<Rightarrow>
        (case PeekDelay_n n b' r' of (ds, b'', r'') \<Rightarrow> (d # ds, b'', r'')))"

text \<open>
  The nominal delay after \<open>n\<close> calls: what \<^verbatim>\<open>PeekDelay\<close> then returns, and what the
  next call starts from.
\<close>

definition nominal :: "nat \<Rightarrow> Backoff \<Rightarrow> rand_source \<Rightarrow> duration" where
  "nominal n b r = (case advance_n n b r of (b', r') \<Rightarrow> fst (PeekDelay b' r'))"

text \<open>
  The object of the package's own example: initial delay 0, base delay 500 ms,
  exponential limit 60 s, and the default jitter factor.
\<close>

definition example_backoff :: Backoff where
  "example_backoff =
     \<lparr>delay = 0, baseDelay = Millisecond * 500, expLimit = Millisecond * 60000,
      jitterFactor = defaultJitterFactor\<rparr>"

section \<open>Settings and their constraints\<close>

text \<open>
  The four settings a caller can supply, each with the option that carries it.
\<close>

datatype setting =
  InitialDelay duration | BaseDelay duration | ExponentialLimit duration | JitterFactor float64

fun option_of :: "setting \<Rightarrow> backoffOption" where
  "option_of (InitialDelay d) = WithInitialDelay d"
| "option_of (BaseDelay d) = WithBaseDelay d"
| "option_of (ExponentialLimit d) = WithExponentialLimit d"
| "option_of (JitterFactor x) = WithJitterFactor x"

text \<open>
  The constraint of each setting and the message of its violation, as the table of
  settings gives them: initial delay \<open>\<ge> 0\<close>, base delay \<open>> 0\<close>, exponential limit
  \<open>\<ge> 0\<close>, jitter factor in \<open>[0, 1)\<close>.
\<close>

fun satisfies_constraint :: "setting \<Rightarrow> bool" where
  "satisfies_constraint (InitialDelay d) = (0 \<le> sint d)"
| "satisfies_constraint (BaseDelay d) = (0 < sint d)"
| "satisfies_constraint (ExponentialLimit d) = (0 \<le> sint d)"
| "satisfies_constraint (JitterFactor x) = (is_finite x \<and> 0 \<le> valof x \<and> valof x < 1)"

fun violation_message :: "setting \<Rightarrow> string" where
  "violation_message (InitialDelay d) = ''the initial delay must be >= 0''"
| "violation_message (BaseDelay d) = ''the base delay must be > 0''"
| "violation_message (ExponentialLimit d) = ''the exponential backoff limit must be >= 0''"
| "violation_message (JitterFactor x) = ''the jitterFactor must be in the range [0,1)''"

text \<open>The messages of an error that may be nil.\<close>

definition msgs :: "error option \<Rightarrow> string list" where
  "msgs e = (case e of None \<Rightarrow> [] | Some x \<Rightarrow> messages x)"

text \<open>The field a setting is for, and the invariants of the object.\<close>

datatype field = InitialDelayField | BaseDelayField | ExponentialLimitField | JitterFactorField

fun field_of :: "setting \<Rightarrow> field" where
  "field_of (InitialDelay d) = InitialDelayField"
| "field_of (BaseDelay d) = BaseDelayField"
| "field_of (ExponentialLimit d) = ExponentialLimitField"
| "field_of (JitterFactor x) = JitterFactorField"

definition valid_backoff :: "Backoff \<Rightarrow> bool" where
  "valid_backoff b =
     (0 \<le> sint (delay b) \<and> 0 < sint (baseDelay b) \<and> 0 \<le> sint (expLimit b)
      \<and> is_finite (jitterFactor b) \<and> 0 \<le> valof (jitterFactor b) \<and> valof (jitterFactor b) < 1)"

text \<open>A finite floating-point number in \<open>[0, 1)\<close>: a jitter factor, or a random draw.\<close>

definition unit_interval :: "float64 \<Rightarrow> bool" where
  "unit_interval x = (is_finite x \<and> 0 \<le> valof x \<and> valof x < 1)"

section \<open>The state after a call\<close>

lemma computeDelay_state:
  "fst (snd (computeDelay b r)) =
     b\<lparr>delay := (if delay b = 0 then baseDelay b
                 else if delay b <s expLimit b then delay b * 2
                 else delay b)\<rparr>"
  by (simp add: computeDelay_def rand_Float64_def Let_def)

lemma computeDelay_rand: "snd (snd (computeDelay b r)) = stl r"
  by (simp add: computeDelay_def rand_Float64_def Let_def)

lemma computeDelay_result:
  "fst (computeDelay b r) =
     int_of_float64 (math_Round (fmul (float64_of_int64 (delay b))
       (fadd (Fin 1 0) (fmul (fsub (shd r) (Fin 1 (- 1))) (jitterFactor b)))))"
  by (simp add: computeDelay_def rand_Float64_def Let_def)


text \<open>
  C8. \<^verbatim>\<open>PeekDelay\<close> returns the field \<open>delay\<close>, which is the value the next call of
  \<^verbatim>\<open>computeDelay\<close> converts and multiplies by the jitter, and the value that call
  tests and doubles; it leaves the object and the random source as they are, so \<open>n\<close>
  calls in a row return \<open>n\<close> times the same value.
\<close>

theorem PeekDelay_reads_only:
  "PeekDelay b r = (delay b, b, r)
   \<and> PeekDelay_n n b r = (replicate n (delay b), b, r)
   \<and> fst (computeDelay b r) =
       int_of_float64 (math_Round (fmul (float64_of_int64 (fst (PeekDelay b r)))
         (fadd (Fin 1 0) (fmul (fsub (shd r) (Fin 1 (- 1))) (jitterFactor b)))))
   \<and> delay (fst (snd (computeDelay b r))) =
       (if fst (PeekDelay b r) = 0 then baseDelay b
        else if fst (PeekDelay b r) <s expLimit b then fst (PeekDelay b r) * 2
        else fst (PeekDelay b r))"
proof -
  have "PeekDelay_n n b r = (replicate n (delay b), b, r)"
    by (induction n) (simp_all add: PeekDelay_def)
  then show ?thesis
    by (simp add: PeekDelay_def computeDelay_state computeDelay_result)
qed

section \<open>Comparisons of floating-point numbers\<close>

declare option_of.simps [simp del]

lemma real_scaled:
  "e0 \<le> e \<Longrightarrow> real_of_int (scaled m e e0) = valof (Fin m e) * 2 powr (- real_of_int e0)"
proof -
  assume h: "e0 \<le> e"
  have "(2::real) ^ nat (e - e0) = 2 powr real (nat (e - e0))"
    by (simp add: powr_realpow)
  also have "\<dots> = 2 powr (real_of_int e - real_of_int e0)"
    using h by simp
  also have "\<dots> = 2 powr real_of_int e * 2 powr (- real_of_int e0)"
    by (simp add: powr_diff powr_minus field_simps)
  finally show ?thesis
    by (simp add: scaled_def valof_def)
qed

lemma flt_valof: "flt (Fin m1 e1) (Fin m2 e2) \<longleftrightarrow> valof (Fin m1 e1) < valof (Fin m2 e2)"
proof -
  let ?e = "min e1 e2"
  have "scaled m1 e1 ?e < scaled m2 e2 ?e
        \<longleftrightarrow> real_of_int (scaled m1 e1 ?e) < real_of_int (scaled m2 e2 ?e)"
    by simp
  also have "\<dots> \<longleftrightarrow> valof (Fin m1 e1) * 2 powr (- real_of_int ?e)
                    < valof (Fin m2 e2) * 2 powr (- real_of_int ?e)"
    by (simp only: real_scaled [OF min.cobounded1] real_scaled [OF min.cobounded2])
  also have "\<dots> \<longleftrightarrow> valof (Fin m1 e1) < valof (Fin m2 e2)"
    by simp
  finally show ?thesis by simp
qed

lemma fge_valof: "fge (Fin m1 e1) (Fin m2 e2) \<longleftrightarrow> valof (Fin m2 e2) \<le> valof (Fin m1 e1)"
proof -
  let ?e = "min e1 e2"
  have "scaled m2 e2 ?e \<le> scaled m1 e1 ?e
        \<longleftrightarrow> real_of_int (scaled m2 e2 ?e) \<le> real_of_int (scaled m1 e1 ?e)"
    by simp
  also have "\<dots> \<longleftrightarrow> valof (Fin m2 e2) * 2 powr (- real_of_int ?e)
                    \<le> valof (Fin m1 e1) * 2 powr (- real_of_int ?e)"
    by (simp only: real_scaled [OF min.cobounded1] real_scaled [OF min.cobounded2])
  also have "\<dots> \<longleftrightarrow> valof (Fin m2 e2) \<le> valof (Fin m1 e1)"
    by simp
  finally show ?thesis by simp
qed

lemma valof_simps [simp]: "valof (Fin 0 e) = 0" "valof (Fin 1 0) = 1"
  by (simp_all add: valof_def)

lemma jitter_in_range:
  "fge x (Fin 0 0) \<and> flt x (Fin 1 0) \<longleftrightarrow> is_finite x \<and> 0 \<le> valof x \<and> valof x < 1"
proof (cases x)
  case (Fin m e)
  then show ?thesis
    by (simp add: fge_valof flt_valof is_finite_def del: fge.simps flt.simps)
qed (simp_all add: is_finite_def)

lemma option_of_strict:
  "option_of s b False =
     (if satisfies_constraint s then (None, snd (option_of s b True))
      else (Some (ErrorString (violation_message s)), b))"
  by (cases s)
     (simp_all add: option_of.simps WithInitialDelay_def WithBaseDelay_def WithExponentialLimit_def
        WithJitterFactor_def errors_New_def word_sle_eq word_sless_alt jitter_in_range)

lemma flt_zero: "flt x (Fin 0 0) \<longleftrightarrow> x = NegInf \<or> (is_finite x \<and> valof x < 0)"
proof (cases x)
  case (Fin m e)
  then show ?thesis
    by (simp add: flt_valof is_finite_def del: flt.simps)
qed (simp_all add: is_finite_def)

section \<open>Strict and coercing construction\<close>

lemma errors_Join_None: "errors_Join [a, b] = None \<longleftrightarrow> a = None \<and> b = None"
  by (cases a; cases b) (simp_all add: errors_Join_def List.map_filter_simps)

lemma msgs_Join: "msgs (errors_Join [a, b]) = msgs a @ msgs b"
  by (cases a; cases b) (simp_all add: errors_Join_def List.map_filter_simps msgs_def)

lemma msgs_simps: "msgs None = []" "msgs (Some (ErrorString t)) = [t]"
  by (simp_all add: msgs_def)

lemma New_loop_state:
  "list_all satisfies_constraint ss \<Longrightarrow>
   fst (New_loop (map option_of ss) b errs) = CoerceNew_loop (map option_of ss) b"
  by (induction ss arbitrary: b errs) (simp_all add: option_of_strict)

lemma New_loop_None:
  "snd (New_loop (map option_of ss) b errs) = None
   \<longleftrightarrow> errs = None \<and> list_all satisfies_constraint ss"
  by (induction ss arbitrary: b errs) (auto simp: option_of_strict errors_Join_None)

lemma New_loop_msgs:
  "msgs (snd (New_loop (map option_of ss) b errs)) =
     msgs errs @ map violation_message (filter (\<lambda>s. \<not> satisfies_constraint s) ss)"
  by (induction ss arbitrary: b errs) (simp_all add: option_of_strict msgs_Join msgs_simps)

text \<open>
  C3. For every list of supplied settings, \<^verbatim>\<open>New\<close> fails exactly when one of them
  violates its constraint. A failure is the left injection: it carries the error and no
  object. The messages of that error are the messages of all the violated settings, one
  for each, in the order the settings were supplied.
\<close>

theorem New_fails_iff_violation:
  "(isl (New (map option_of ss)) \<longleftrightarrow> (\<exists>s \<in> set ss. \<not> satisfies_constraint s))
   \<and> (\<forall>e. New (map option_of ss) = Inl e \<longrightarrow>
          messages e = map violation_message (filter (\<lambda>s. \<not> satisfies_constraint s) ss))"
proof -
  obtain b errs where loop: "New_loop (map option_of ss) defaultBackoff None = (b, errs)"
    by (cases "New_loop (map option_of ss) defaultBackoff None")
  have none: "errs = None \<longleftrightarrow> list_all satisfies_constraint ss"
    using New_loop_None [of ss defaultBackoff None] loop by simp
  have m: "msgs errs = map violation_message (filter (\<lambda>s. \<not> satisfies_constraint s) ss)"
    using New_loop_msgs [of ss defaultBackoff None] loop by (simp add: msgs_def)
  show ?thesis
  proof (cases errs)
    case None
    then show ?thesis using loop none by (simp add: New_def list_all_iff)
  next
    case (Some e)
    then show ?thesis using loop none m by (auto simp: New_def list_all_iff msgs_def)
  qed
qed

theorem New_fails_iff_violation_witness:
  "isl (New (map option_of [JitterFactor (Fin 1 0), InitialDelay 5, BaseDelay 0]))
   \<and> New (map option_of [JitterFactor (Fin 1 0), InitialDelay 5, BaseDelay 0]) =
       Inl (JoinError [JoinError [JoinError
              [ErrorString ''the jitterFactor must be in the range [0,1)'']],
            ErrorString ''the base delay must be > 0''])
   \<and> messages (JoinError [JoinError [JoinError
              [ErrorString ''the jitterFactor must be in the range [0,1)'']],
            ErrorString ''the base delay must be > 0'']) =
       [''the jitterFactor must be in the range [0,1)'', ''the base delay must be > 0'']"
  using New_fails_iff_violation [of "[JitterFactor (Fin 1 0), InitialDelay 5, BaseDelay 0]"]
  by (simp add: New_def option_of.simps WithInitialDelay_def WithBaseDelay_def WithJitterFactor_def
        scaled_def errors_Join_def errors_New_def List.map_filter_simps
        word_sle_eq word_sless_alt)

text \<open>
  C6. When every supplied setting satisfies its constraint, \<^verbatim>\<open>New\<close> succeeds, and
  the object it returns is the object \<^verbatim>\<open>CoerceNew\<close> returns for the same settings.
\<close>

theorem valid_settings_same_object:
  "list_all satisfies_constraint ss \<Longrightarrow>
   New (map option_of ss) = Inr (CoerceNew (map option_of ss))"
proof -
  assume h: "list_all satisfies_constraint ss"
  obtain b errs where loop: "New_loop (map option_of ss) defaultBackoff None = (b, errs)"
    by (cases "New_loop (map option_of ss) defaultBackoff None")
  have "errs = None"
    using New_loop_None [of ss defaultBackoff None] loop h by simp
  moreover have "b = CoerceNew (map option_of ss)"
    using New_loop_state [OF h, of defaultBackoff None] loop by (simp add: CoerceNew_def)
  ultimately show ?thesis using loop by (simp add: New_def)
qed

theorem valid_settings_same_object_witness:
  "list_all satisfies_constraint [JitterFactor (Fin 1 (- 1)), InitialDelay 0, BaseDelay 5]
   \<and> New (map option_of [JitterFactor (Fin 1 (- 1)), InitialDelay 0, BaseDelay 5]) =
       Inr \<lparr>delay = 0, baseDelay = 5, expLimit = defaultExpLimit, jitterFactor = Fin 1 (- 1)\<rparr>
   \<and> CoerceNew (map option_of [JitterFactor (Fin 1 (- 1)), InitialDelay 0, BaseDelay 5]) =
       \<lparr>delay = 0, baseDelay = 5, expLimit = defaultExpLimit, jitterFactor = Fin 1 (- 1)\<rparr>"
proof -
  have v: "list_all satisfies_constraint [JitterFactor (Fin 1 (- 1)), InitialDelay 0, BaseDelay 5]"
    by (simp add: is_finite_def valof_def powr_minus)
  have c: "CoerceNew (map option_of [JitterFactor (Fin 1 (- 1)), InitialDelay 0, BaseDelay 5]) =
       \<lparr>delay = 0, baseDelay = 5, expLimit = defaultExpLimit, jitterFactor = Fin 1 (- 1)\<rparr>"
    by (simp add: CoerceNew_def option_of.simps WithInitialDelay_def WithBaseDelay_def WithJitterFactor_def
        scaled_def word_sle_eq word_sless_alt defaultBackoff_def)
  show ?thesis
    using v c valid_settings_same_object [OF v] by simp
qed

lemma coerce_delay:
  "delay (snd (option_of s b True)) =
     (case s of InitialDelay d \<Rightarrow> if 0 \<le> sint d then d else 0 | _ \<Rightarrow> delay b)"
  by (cases s)
     (simp_all add: option_of.simps WithInitialDelay_def WithBaseDelay_def WithExponentialLimit_def
        WithJitterFactor_def word_sle_eq)

lemma coerce_baseDelay:
  "baseDelay (snd (option_of s b True)) =
     (case s of BaseDelay d \<Rightarrow> if 0 < sint d then d else baseDelay b | _ \<Rightarrow> baseDelay b)"
  by (cases s)
     (simp_all add: option_of.simps WithInitialDelay_def WithBaseDelay_def WithExponentialLimit_def
        WithJitterFactor_def word_sless_alt)

lemma coerce_expLimit:
  "expLimit (snd (option_of s b True)) =
     (case s of ExponentialLimit d \<Rightarrow> if 0 \<le> sint d then d else 0 | _ \<Rightarrow> expLimit b)"
  by (cases s)
     (simp_all add: option_of.simps WithInitialDelay_def WithBaseDelay_def WithExponentialLimit_def
        WithJitterFactor_def word_sle_eq)

lemma coerce_jitterFactor:
  "jitterFactor (snd (option_of s b True)) =
     (case s of
        JitterFactor x \<Rightarrow>
          if is_finite x \<and> 0 \<le> valof x \<and> valof x < 1 then x
          else if x = NegInf \<or> (is_finite x \<and> valof x < 0) then Fin 0 0
          else jitterFactor b
      | _ \<Rightarrow> jitterFactor b)"
  by (cases s)
     (simp_all add: option_of.simps WithInitialDelay_def WithBaseDelay_def WithExponentialLimit_def
        WithJitterFactor_def jitter_in_range flt_zero del: flt.simps fge.simps)

lemma coerce_valid: "valid_backoff b \<Longrightarrow> valid_backoff (snd (option_of s b True))"
  unfolding valid_backoff_def coerce_delay coerce_baseDelay coerce_expLimit coerce_jitterFactor
  by (cases s) (auto simp: is_finite_def)

lemma CoerceNew_loop_valid:
  "valid_backoff b \<Longrightarrow> valid_backoff (CoerceNew_loop (map option_of ss) b)"
  by (induction ss arbitrary: b) (simp_all add: coerce_valid)

lemma defaultBackoff_valid: "valid_backoff defaultBackoff"
  by (simp add: valid_backoff_def defaultBackoff_def defaultInitDelay_def defaultBaseDelay_def
      defaultExpLimit_def defaultJitterFactor_def Millisecond_def Minute_def is_finite_def
      valof_def powr_minus)

lemma loop_delay_other:
  "InitialDelayField \<notin> field_of ` set ss \<Longrightarrow>
   delay (CoerceNew_loop (map option_of ss) b) = delay b"
  by (induction ss arbitrary: b) (auto simp: coerce_delay split: setting.splits)

lemma loop_baseDelay_other:
  "BaseDelayField \<notin> field_of ` set ss \<Longrightarrow>
   baseDelay (CoerceNew_loop (map option_of ss) b) = baseDelay b"
  by (induction ss arbitrary: b) (auto simp: coerce_baseDelay split: setting.splits)

lemma loop_expLimit_other:
  "ExponentialLimitField \<notin> field_of ` set ss \<Longrightarrow>
   expLimit (CoerceNew_loop (map option_of ss) b) = expLimit b"
  by (induction ss arbitrary: b) (auto simp: coerce_expLimit split: setting.splits)

lemma loop_jitterFactor_other:
  "JitterFactorField \<notin> field_of ` set ss \<Longrightarrow>
   jitterFactor (CoerceNew_loop (map option_of ss) b) = jitterFactor b"
  by (induction ss arbitrary: b) (auto simp: coerce_jitterFactor split: setting.splits)

lemma loop_delay:
  "distinct (map field_of ss) \<Longrightarrow> InitialDelay d \<in> set ss \<Longrightarrow>
   delay (CoerceNew_loop (map option_of ss) b) = (if 0 \<le> sint d then d else 0)"
proof (induction ss arbitrary: b)
  case Nil
  then show ?case by simp
next
  case (Cons s ss)
  show ?case
  proof (cases "s = InitialDelay d")
    case True
    then have "InitialDelayField \<notin> field_of ` set ss"
      using Cons.prems(1) by auto
    then show ?thesis
      using True by (simp add: loop_delay_other coerce_delay)
  next
    case False
    then show ?thesis
      using Cons by simp
  qed
qed

lemma loop_baseDelay:
  "distinct (map field_of ss) \<Longrightarrow> BaseDelay d \<in> set ss \<Longrightarrow>
   baseDelay (CoerceNew_loop (map option_of ss) b) = (if 0 < sint d then d else baseDelay b)"
proof (induction ss arbitrary: b)
  case Nil
  then show ?case by simp
next
  case (Cons s ss)
  show ?case
  proof (cases "s = BaseDelay d")
    case True
    then have "BaseDelayField \<notin> field_of ` set ss"
      using Cons.prems(1) by auto
    then show ?thesis
      using True by (simp add: loop_baseDelay_other coerce_baseDelay)
  next
    case False
    then have in_ss: "BaseDelay d \<in> set ss" and "field_of s \<noteq> BaseDelayField"
      using Cons.prems by (auto simp: image_iff)
    then have "baseDelay (snd (option_of s b True)) = baseDelay b"
      by (cases s) (simp_all add: coerce_baseDelay)
    then show ?thesis
      using Cons in_ss by simp
  qed
qed

lemma loop_expLimit:
  "distinct (map field_of ss) \<Longrightarrow> ExponentialLimit d \<in> set ss \<Longrightarrow>
   expLimit (CoerceNew_loop (map option_of ss) b) = (if 0 \<le> sint d then d else 0)"
proof (induction ss arbitrary: b)
  case Nil
  then show ?case by simp
next
  case (Cons s ss)
  show ?case
  proof (cases "s = ExponentialLimit d")
    case True
    then have "ExponentialLimitField \<notin> field_of ` set ss"
      using Cons.prems(1) by auto
    then show ?thesis
      using True by (simp add: loop_expLimit_other coerce_expLimit)
  next
    case False
    then show ?thesis
      using Cons by simp
  qed
qed

lemma loop_jitterFactor:
  "distinct (map field_of ss) \<Longrightarrow> JitterFactor x \<in> set ss \<Longrightarrow>
   jitterFactor (CoerceNew_loop (map option_of ss) b) =
     (if is_finite x \<and> 0 \<le> valof x \<and> valof x < 1 then x
      else if x = NegInf \<or> (is_finite x \<and> valof x < 0) then Fin 0 0
      else jitterFactor b)"
proof (induction ss arbitrary: b)
  case Nil
  then show ?case by simp
next
  case (Cons s ss)
  show ?case
  proof (cases "s = JitterFactor x")
    case True
    then have "JitterFactorField \<notin> field_of ` set ss"
      using Cons.prems(1) by auto
    then show ?thesis
      using True by (simp add: loop_jitterFactor_other coerce_jitterFactor)
  next
    case False
    then have in_ss: "JitterFactor x \<in> set ss" and "field_of s \<noteq> JitterFactorField"
      using Cons.prems by (auto simp: image_iff)
    then have "jitterFactor (snd (option_of s b True)) = jitterFactor b"
      by (cases s) (simp_all add: coerce_jitterFactor)
    then show ?thesis
      using Cons in_ss by simp
  qed
qed

text \<open>
  C4, as amended. \<^verbatim>\<open>CoerceNew\<close> always returns an object, and the object is valid.
  When no field is set twice, an invalid setting leaves its field at the documented
  fallback: a negative initial delay gives 0; a base delay that is not positive leaves
  the default of 100 ms; a negative exponential limit gives 0; a negative jitter factor
  gives 0; a jitter factor of 1 or more, or one that is not a number, leaves the default,
  the \<^verbatim>\<open>float64\<close> nearest to 0.3.
\<close>

theorem CoerceNew_fallbacks:
  "valid_backoff (CoerceNew (map option_of ss))
   \<and> (distinct (map field_of ss) \<longrightarrow>
       (\<forall>d. InitialDelay d \<in> set ss \<and> sint d < 0 \<longrightarrow>
            delay (CoerceNew (map option_of ss)) = 0)
     \<and> (\<forall>d. BaseDelay d \<in> set ss \<and> sint d \<le> 0 \<longrightarrow>
            baseDelay (CoerceNew (map option_of ss)) = defaultBaseDelay)
     \<and> (\<forall>d. ExponentialLimit d \<in> set ss \<and> sint d < 0 \<longrightarrow>
            expLimit (CoerceNew (map option_of ss)) = 0)
     \<and> (\<forall>x. JitterFactor x \<in> set ss \<and> (x = NegInf \<or> (is_finite x \<and> valof x < 0)) \<longrightarrow>
            jitterFactor (CoerceNew (map option_of ss)) = Fin 0 0)
     \<and> (\<forall>x. JitterFactor x \<in> set ss
            \<and> (x = PosInf \<or> x = NaN \<or> (is_finite x \<and> 1 \<le> valof x)) \<longrightarrow>
            jitterFactor (CoerceNew (map option_of ss)) = defaultJitterFactor))
   \<and> sint defaultBaseDelay = 100 * 1000000
   \<and> \<bar>valof defaultJitterFactor - 3 / 10\<bar> \<le> 1 / 2 ^ 54"
proof -
  have "valid_backoff (CoerceNew (map option_of ss))"
    by (simp add: CoerceNew_def CoerceNew_loop_valid defaultBackoff_valid)
  moreover have "sint defaultBaseDelay = 100 * 1000000"
    by (simp add: defaultBaseDelay_def Millisecond_def)
  moreover have "\<bar>valof defaultJitterFactor - 3 / 10\<bar> \<le> 1 / 2 ^ 54"
    by (simp add: defaultJitterFactor_def valof_def powr_minus powr_numeral field_simps)
  moreover have "distinct (map field_of ss) \<Longrightarrow> InitialDelay d \<in> set ss \<Longrightarrow> sint d < 0 \<Longrightarrow>
      delay (CoerceNew (map option_of ss)) = 0" for d
    by (simp add: CoerceNew_def loop_delay)
  moreover have "distinct (map field_of ss) \<Longrightarrow> BaseDelay d \<in> set ss \<Longrightarrow> sint d \<le> 0 \<Longrightarrow>
      baseDelay (CoerceNew (map option_of ss)) = defaultBaseDelay" for d
    by (simp add: CoerceNew_def loop_baseDelay defaultBackoff_def)
  moreover have "distinct (map field_of ss) \<Longrightarrow> ExponentialLimit d \<in> set ss \<Longrightarrow> sint d < 0 \<Longrightarrow>
      expLimit (CoerceNew (map option_of ss)) = 0" for d
    by (simp add: CoerceNew_def loop_expLimit)
  moreover have "distinct (map field_of ss) \<Longrightarrow> JitterFactor x \<in> set ss \<Longrightarrow>
      x = NegInf \<or> (is_finite x \<and> valof x < 0) \<Longrightarrow>
      jitterFactor (CoerceNew (map option_of ss)) = Fin 0 0" for x
    by (auto simp: CoerceNew_def loop_jitterFactor is_finite_def)
  moreover have "distinct (map field_of ss) \<Longrightarrow> JitterFactor x \<in> set ss \<Longrightarrow>
      x = PosInf \<or> x = NaN \<or> (is_finite x \<and> 1 \<le> valof x) \<Longrightarrow>
      jitterFactor (CoerceNew (map option_of ss)) = defaultJitterFactor" for x
    by (auto simp: CoerceNew_def loop_jitterFactor is_finite_def defaultBackoff_def)
  ultimately show ?thesis by blast
qed

theorem CoerceNew_fallbacks_witness:
  "distinct (map field_of
      [InitialDelay (- 1), BaseDelay 0, ExponentialLimit (- 1), JitterFactor (Fin 1 0)])
   \<and> sint (- 1 :: 64 word) < 0 \<and> sint (0 :: 64 word) \<le> 0
   \<and> is_finite (Fin 1 0) \<and> 1 \<le> valof (Fin 1 0)
   \<and> CoerceNew (map option_of
        [InitialDelay (- 1), BaseDelay 0, ExponentialLimit (- 1), JitterFactor (Fin 1 0)]) =
       \<lparr>delay = 0, baseDelay = defaultBaseDelay, expLimit = 0,
        jitterFactor = defaultJitterFactor\<rparr>
   \<and> valid_backoff \<lparr>delay = 0, baseDelay = defaultBaseDelay, expLimit = 0,
        jitterFactor = defaultJitterFactor\<rparr>"
proof -
  have c: "CoerceNew (map option_of
        [InitialDelay (- 1), BaseDelay 0, ExponentialLimit (- 1), JitterFactor (Fin 1 0)]) =
       \<lparr>delay = 0, baseDelay = defaultBaseDelay, expLimit = 0,
        jitterFactor = defaultJitterFactor\<rparr>"
    by (simp add: CoerceNew_def option_of.simps WithInitialDelay_def WithBaseDelay_def
        WithExponentialLimit_def WithJitterFactor_def scaled_def word_sle_eq word_sless_alt
        defaultBackoff_def)
  show ?thesis
    using c CoerceNew_fallbacks
      [of "[InitialDelay (- 1), BaseDelay 0, ExponentialLimit (- 1), JitterFactor (Fin 1 0)]"]
    by (simp add: is_finite_def)
qed

text \<open>
  When a field is set twice the later setting acts on what the earlier one has left: a
  base delay of 0 after a base delay of 200 ns leaves 200 ns, not the default of 100 ms,
  and an initial delay of 5 ns after a negative one leaves 5 ns, not 0.
\<close>

theorem CoerceNew_duplicate_counterexample:
  "BaseDelay 0 \<in> set [BaseDelay 200, BaseDelay 0] \<and> sint (0 :: 64 word) \<le> 0
   \<and> baseDelay (CoerceNew (map option_of [BaseDelay 200, BaseDelay 0])) = 200
   \<and> defaultBaseDelay = 100000000
   \<and> InitialDelay (- 1) \<in> set [InitialDelay (- 1), InitialDelay 5]
   \<and> sint (- 1 :: 64 word) < 0
   \<and> delay (CoerceNew (map option_of [InitialDelay (- 1), InitialDelay 5])) = 5"
  by (simp add: CoerceNew_def option_of.simps WithBaseDelay_def WithInitialDelay_def
      word_sless_alt word_sle_eq defaultBaseDelay_def Millisecond_def)

section \<open>The growth of the delay\<close>

lemma advance_n_Suc:
  "advance_n (Suc n) b r =
     advance_n n (fst (snd (computeDelay b r))) (snd (snd (computeDelay b r)))"
  by (simp split: prod.splits)

lemma advance_n_end:
  "advance_n (Suc n) b r =
     snd (computeDelay (fst (advance_n n b r)) (snd (advance_n n b r)))"
proof (induction n arbitrary: b r)
  case 0
  show ?case by (simp split: prod.splits)
next
  case (Suc n)
  show ?case
    using Suc.IH [of "fst (snd (computeDelay b r))" "snd (snd (computeDelay b r))"]
    by (simp only: advance_n_Suc)
qed

lemma advance_n_fields:
  "baseDelay (fst (advance_n n b r)) = baseDelay b
   \<and> expLimit (fst (advance_n n b r)) = expLimit b
   \<and> jitterFactor (fst (advance_n n b r)) = jitterFactor b"
proof (induction n arbitrary: b r)
  case 0
  show ?case by simp
next
  case (Suc n)
  show ?case
    using Suc.IH [of "fst (snd (computeDelay b r))" "snd (snd (computeDelay b r))"]
    by (simp add: advance_n_Suc computeDelay_state del: advance_n.simps)
qed

lemma nominal_0: "nominal 0 b r = delay b"
  by (simp add: nominal_def PeekDelay_def)

lemma nominal_Suc:
  "nominal (Suc n) b r =
     (if nominal n b r = 0 then baseDelay b
      else if nominal n b r <s expLimit b then nominal n b r * 2
      else nominal n b r)"
proof -
  obtain b' r' where a: "advance_n n b r = (b', r')"
    by (cases "advance_n n b r")
  have f: "baseDelay b' = baseDelay b" "expLimit b' = expLimit b"
    using advance_n_fields [of n b r] a by simp_all
  have "nominal (Suc n) b r = delay (fst (snd (computeDelay b' r')))"
    unfolding nominal_def advance_n_end a by (simp add: PeekDelay_def split: prod.splits)
  then show ?thesis
    using a f by (simp add: nominal_def PeekDelay_def computeDelay_state)
qed

lemma sint_double:
  "0 \<le> sint d \<Longrightarrow> sint d < 2 ^ 62 \<Longrightarrow> sint (d * 2 :: 64 word) = 2 * sint d"
proof -
  assume h: "0 \<le> sint d" "sint d < 2 ^ 62"
  have "sint (d * 2) = signed_take_bit 63 (sint d * 2)"
    by (simp add: sint_word_ariths)
  also have "\<dots> = sint d * 2"
    using h by (intro signed_take_bit_int_eq_self) auto
  finally show ?thesis by simp
qed

lemma nominal_delay: "nominal n b r = delay (fst (advance_n n b r))"
  by (simp add: nominal_def PeekDelay_def split: prod.splits)

lemma nominal_nonneg:
  "0 \<le> sint (delay b) \<Longrightarrow> 0 < sint (baseDelay b) \<Longrightarrow> sint (expLimit b) \<le> 2 ^ 62 \<Longrightarrow>
   0 \<le> sint (nominal n b r)"
proof (induction n)
  case 0
  then show ?case by (simp add: nominal_0)
next
  case (Suc n)
  then have ih: "0 \<le> sint (nominal n b r)" by simp
  show ?case
  proof (cases "nominal n b r = 0")
    case True
    then show ?thesis using Suc.prems by (simp add: nominal_Suc)
  next
    case z: False
    show ?thesis
    proof (cases "nominal n b r <s expLimit b")
      case True
      then have "sint (nominal n b r) < 2 ^ 62"
        using Suc.prems(3) by (simp add: word_sless_alt)
      then have "sint (nominal n b r * 2) = 2 * sint (nominal n b r)"
        using ih by (rule sint_double [rotated])
      then show ?thesis using z True ih by (simp add: nominal_Suc)
    next
      case False
      then show ?thesis using z ih by (simp add: nominal_Suc)
    qed
  qed
qed

lemma New_Inr_CoerceNew:
  "New (map option_of ss) = Inr b \<Longrightarrow> b = CoerceNew (map option_of ss)"
proof -
  assume h: "New (map option_of ss) = Inr b"
  obtain b' errs where loop: "New_loop (map option_of ss) defaultBackoff None = (b', errs)"
    by (cases "New_loop (map option_of ss) defaultBackoff None")
  have e: "errs = None" and b: "b' = b"
    using h loop by (auto simp: New_def split: option.splits)
  have "list_all satisfies_constraint ss"
    using New_loop_None [of ss defaultBackoff None] loop e by simp
  then show ?thesis
    using New_loop_state [of ss defaultBackoff None] loop b by (simp add: CoerceNew_def)
qed

lemma constructed_valid:
  "New (map option_of ss) = Inr b \<or> CoerceNew (map option_of ss) = b \<Longrightarrow> valid_backoff b"
  using New_Inr_CoerceNew [of ss b] CoerceNew_loop_valid [OF defaultBackoff_valid, of ss]
  by (auto simp: CoerceNew_def)

text \<open>
  C7, as amended. For an object that either constructor has returned and whose
  exponential limit is at most \<open>2 ^ 62\<close> ns, the delay is non-negative after any number
  of calls of \<^verbatim>\<open>computeDelay\<close>.
\<close>

theorem delay_stays_nonneg:
  "New (map option_of ss) = Inr b \<or> CoerceNew (map option_of ss) = b \<Longrightarrow>
   sint (expLimit b) \<le> 2 ^ 62 \<Longrightarrow>
   0 \<le> sint (delay (fst (advance_n n b r)))"
proof -
  assume c: "New (map option_of ss) = Inr b \<or> CoerceNew (map option_of ss) = b"
    and l: "sint (expLimit b) \<le> 2 ^ 62"
  have "valid_backoff b"
    using c by (rule constructed_valid)
  then have "0 \<le> sint (delay b)" "0 < sint (baseDelay b)"
    by (simp_all add: valid_backoff_def)
  then have "0 \<le> sint (nominal n b r)"
    using l by (rule nominal_nonneg)
  then show ?thesis by (simp add: nominal_delay)
qed

theorem delay_stays_nonneg_witness:
  "CoerceNew (map option_of [InitialDelay 0, BaseDelay 3, ExponentialLimit 4]) =
     \<lparr>delay = 0, baseDelay = 3, expLimit = 4, jitterFactor = defaultJitterFactor\<rparr>
   \<and> sint (4 :: 64 word) \<le> 2 ^ 62
   \<and> delay (fst (advance_n 3
        \<lparr>delay = 0, baseDelay = 3, expLimit = 4, jitterFactor = defaultJitterFactor\<rparr>
        (sconst (Fin 0 0)))) = 6
   \<and> 0 \<le> sint (6 :: 64 word)"
proof -
  have c: "CoerceNew (map option_of [InitialDelay 0, BaseDelay 3, ExponentialLimit 4]) =
     \<lparr>delay = 0, baseDelay = 3, expLimit = 4, jitterFactor = defaultJitterFactor\<rparr>"
    by (simp add: CoerceNew_def option_of.simps WithInitialDelay_def WithBaseDelay_def
        WithExponentialLimit_def word_sle_eq word_sless_alt defaultBackoff_def)
  have l: "sint (expLimit \<lparr>delay = 0, baseDelay = 3, expLimit = 4,
      jitterFactor = defaultJitterFactor\<rparr>) \<le> 2 ^ 62"
    by simp
  have d: "delay (fst (advance_n 3
        \<lparr>delay = 0, baseDelay = 3, expLimit = 4, jitterFactor = defaultJitterFactor\<rparr>
        (sconst (Fin 0 0)))) = 6"
    by (simp add: numeral_3_eq_3 advance_n_Suc computeDelay_state word_sless_alt
        del: advance_n.simps(2))
  show ?thesis
    using c d delay_stays_nonneg [OF disjI2 [OF c] l, of 3 "sconst (Fin 0 0)"] by simp
qed

text \<open>
  Above that bound the invariant of the specification fails: \<^verbatim>\<open>New\<close> accepts an initial delay of \<open>2 ^ 62\<close> ns
  with a limit of \<open>2 ^ 63 - 1\<close> ns, and one call doubles the delay to \<open>2 ^ 63\<close>, which
  is \<open>- 2 ^ 63\<close> as an \<^verbatim>\<open>int64\<close>.
\<close>

theorem delay_overflow_counterexample:
  "New (map option_of [InitialDelay 4611686018427387904, ExponentialLimit 9223372036854775807]) =
     Inr \<lparr>delay = 4611686018427387904, baseDelay = defaultBaseDelay,
          expLimit = 9223372036854775807, jitterFactor = defaultJitterFactor\<rparr>
   \<and> sint (delay (fst (advance_n 1
        \<lparr>delay = 4611686018427387904, baseDelay = defaultBaseDelay,
         expLimit = 9223372036854775807, jitterFactor = defaultJitterFactor\<rparr>
        (sconst (Fin 0 0))))) = - 9223372036854775808"
proof -
  have "New (map option_of [InitialDelay 4611686018427387904, ExponentialLimit 9223372036854775807]) =
     Inr \<lparr>delay = 4611686018427387904, baseDelay = defaultBaseDelay,
          expLimit = 9223372036854775807, jitterFactor = defaultJitterFactor\<rparr>"
    by (simp add: New_def option_of.simps WithInitialDelay_def WithExponentialLimit_def
        errors_Join_def List.map_filter_simps word_sle_eq defaultBackoff_def)
  moreover have "sint (delay (fst (advance_n 1
        \<lparr>delay = 4611686018427387904, baseDelay = defaultBaseDelay,
         expLimit = 9223372036854775807, jitterFactor = defaultJitterFactor\<rparr>
        (sconst (Fin 0 0))))) = - 9223372036854775808"
    by (simp add: advance_n_Suc computeDelay_state word_sless_alt del: advance_n.simps(2))
  ultimately show ?thesis by simp
qed

text \<open>
  C1, as amended. Starting from a delay of 0, with a base delay \<open>B > 0\<close> and an
  exponential limit \<open>L\<close> of at most \<open>2 ^ 62\<close> ns, the nominal delays before successive
  calls are \<open>0, B, 2 * B, 4 * B, \<dots>\<close>: after \<open>n + 1\<close> calls the delay is \<open>B * 2 ^ k\<close>,
  where every one of the \<open>k\<close> doublings started below \<open>L\<close>, and \<open>k\<close> is less than \<open>n\<close>
  only when the delay has reached \<open>L\<close>. The first value that reaches \<open>L\<close> is kept as it
  is and not cut down to \<open>L\<close>.
\<close>

theorem nominal_sequence:
  assumes "delay b = 0" and "0 < sint (baseDelay b)" and "sint (expLimit b) \<le> 2 ^ 62"
  shows "nominal 0 b r = 0
    \<and> (\<exists>k\<le>n. sint (nominal (Suc n) b r) = sint (baseDelay b) * 2 ^ k
          \<and> (k < n \<longrightarrow> sint (expLimit b) \<le> sint (baseDelay b) * 2 ^ k)
          \<and> (0 < k \<longrightarrow> sint (baseDelay b) * 2 ^ (k - 1) < sint (expLimit b)))"
proof -
  let ?B = "sint (baseDelay b)" and ?L = "sint (expLimit b)"
  have grow: "\<exists>k\<le>n. sint (nominal (Suc n) b r) = ?B * 2 ^ k
          \<and> (k < n \<longrightarrow> ?L \<le> ?B * 2 ^ k) \<and> (0 < k \<longrightarrow> ?B * 2 ^ (k - 1) < ?L)"
  proof (induction n)
    case 0
    show ?case using assms(1) by (simp add: nominal_Suc nominal_0)
  next
    case (Suc n)
    then obtain k where k: "k \<le> n" "sint (nominal (Suc n) b r) = ?B * 2 ^ k"
      "k < n \<longrightarrow> ?L \<le> ?B * 2 ^ k" "0 < k \<longrightarrow> ?B * 2 ^ (k - 1) < ?L"
      by blast
    let ?d = "nominal (Suc n) b r"
    have pos: "0 < sint ?d"
      using k(2) assms(2) by simp
    then have nz: "?d \<noteq> 0" by auto
    show ?case
    proof (cases "?d <s expLimit b")
      case True
      then have lt: "sint ?d < ?L" by (simp add: word_sless_alt)
      then have "sint (?d * 2) = 2 * sint ?d"
        using pos assms(3) by (intro sint_double) auto
      then have v: "sint (nominal (Suc (Suc n)) b r) = ?B * 2 ^ Suc k"
        using nz True k(2) by (simp add: nominal_Suc [of "Suc n"])
      have kn: "k = n"
        using k(1) k(3) lt k(2) by (cases "k < n") auto
      show ?thesis
        using v kn lt k(2) by (intro exI [of _ "Suc k"]) auto
    next
      case False
      then have ge: "?L \<le> sint ?d" by (simp add: word_sless_alt)
      have v: "sint (nominal (Suc (Suc n)) b r) = ?B * 2 ^ k"
        using nz False k(2) by (simp add: nominal_Suc [of "Suc n"])
      show ?thesis
        using v k(1) k(4) ge k(2) by (intro exI [of _ k]) auto
    qed
  qed
  show ?thesis
    using grow assms(1) by (simp add: nominal_0)
qed

lemma example_nominals:
  "nominal 1 example_backoff r = Millisecond * 500"
  "nominal 2 example_backoff r = Millisecond * 1000"
  "nominal 3 example_backoff r = Millisecond * 2000"
  "nominal 4 example_backoff r = Millisecond * 4000"
  "nominal 5 example_backoff r = Millisecond * 8000"
  "nominal 6 example_backoff r = Millisecond * 16000"
  "nominal 7 example_backoff r = Millisecond * 32000"
  "nominal 8 example_backoff r = Millisecond * 64000"
  "nominal 9 example_backoff r = Millisecond * 64000"
proof -
  have f: "baseDelay example_backoff = 500000000" "expLimit example_backoff = 60000000000"
    by (simp_all add: example_backoff_def Millisecond_def)
  have n0: "nominal 0 example_backoff r = 0"
    by (simp add: nominal_0 example_backoff_def)
  have n1: "nominal 1 example_backoff r = 500000000"
    using nominal_Suc [of 0 example_backoff r] n0 f by simp
  have n2: "nominal 2 example_backoff r = 1000000000"
    using nominal_Suc [of 1 example_backoff r] n1 f by (simp add: word_sless_alt numeral_2_eq_2)
  have n3: "nominal 3 example_backoff r = 2000000000"
    using nominal_Suc [of 2 example_backoff r] n2 f by (simp add: word_sless_alt)
  have n4: "nominal 4 example_backoff r = 4000000000"
    using nominal_Suc [of 3 example_backoff r] n3 f by (simp add: word_sless_alt)
  have n5: "nominal 5 example_backoff r = 8000000000"
    using nominal_Suc [of 4 example_backoff r] n4 f by (simp add: word_sless_alt)
  have n6: "nominal 6 example_backoff r = 16000000000"
    using nominal_Suc [of 5 example_backoff r] n5 f by (simp add: word_sless_alt)
  have n7: "nominal 7 example_backoff r = 32000000000"
    using nominal_Suc [of 6 example_backoff r] n6 f by (simp add: word_sless_alt)
  have n8: "nominal 8 example_backoff r = 64000000000"
    using nominal_Suc [of 7 example_backoff r] n7 f by (simp add: word_sless_alt)
  have n9: "nominal 9 example_backoff r = 64000000000"
    using nominal_Suc [of 8 example_backoff r] n8 f by (simp add: word_sless_alt)
  show "nominal 1 example_backoff r = Millisecond * 500"
    "nominal 2 example_backoff r = Millisecond * 1000"
    "nominal 3 example_backoff r = Millisecond * 2000"
    "nominal 4 example_backoff r = Millisecond * 4000"
    "nominal 5 example_backoff r = Millisecond * 8000"
    "nominal 6 example_backoff r = Millisecond * 16000"
    "nominal 7 example_backoff r = Millisecond * 32000"
    "nominal 8 example_backoff r = Millisecond * 64000"
    "nominal 9 example_backoff r = Millisecond * 64000"
    using n1 n2 n3 n4 n5 n6 n7 n8 n9 by (simp_all add: Millisecond_def)
qed

theorem nominal_sequence_witness:
  "delay example_backoff = 0 \<and> 0 < sint (baseDelay example_backoff)
   \<and> sint (expLimit example_backoff) \<le> 2 ^ 62
   \<and> sint (nominal (Suc 8) example_backoff (sconst (Fin 0 0))) =
       sint (baseDelay example_backoff) * 2 ^ 7
   \<and> sint (expLimit example_backoff) \<le> sint (baseDelay example_backoff) * 2 ^ 7
   \<and> sint (baseDelay example_backoff) * 2 ^ (7 - 1) < sint (expLimit example_backoff)"
proof -
  have a: "delay example_backoff = 0" "0 < sint (baseDelay example_backoff)"
    "sint (expLimit example_backoff) \<le> 2 ^ 62"
    by (simp_all add: example_backoff_def Millisecond_def)
  have "sint (nominal 9 example_backoff (sconst (Fin 0 0))) =
      sint (baseDelay example_backoff) * 2 ^ 7"
    by (simp add: example_nominals) (simp add: example_backoff_def Millisecond_def)
  then show ?thesis
    using a nominal_sequence [OF a, where n = 8 and r = "sconst (Fin 0 0)"]
    by (simp add: example_backoff_def Millisecond_def)
qed

text \<open>
  The sequence of the example is 0, 500, 1000, 2000, 4000, 8000, 16000, 32000, 64000,
  64000 ms: the ninth value is 64000 ms, above the limit of 60000 ms, where the specification
  has 60000 ms.
\<close>

theorem nominal_not_clamped_counterexample:
  "New [WithInitialDelay 0, WithBaseDelay (Millisecond * 500),
        WithExponentialLimit (Millisecond * 60000)] = Inr example_backoff
   \<and> map (\<lambda>n. nominal n example_backoff (sconst (Fin 0 0))) [0, 1, 2, 3, 4, 5, 6, 7, 8, 9] =
       map (\<lambda>ms. Millisecond * ms) [0, 500, 1000, 2000, 4000, 8000, 16000, 32000, 64000, 64000]
   \<and> sint (expLimit example_backoff) < sint (nominal 8 example_backoff (sconst (Fin 0 0)))"
proof -
  have "New [WithInitialDelay 0, WithBaseDelay (Millisecond * 500),
        WithExponentialLimit (Millisecond * 60000)] = Inr example_backoff"
    by (simp add: New_def WithInitialDelay_def WithBaseDelay_def WithExponentialLimit_def
        errors_Join_def List.map_filter_simps word_sle_eq word_sless_alt defaultBackoff_def
        example_backoff_def Millisecond_def)
  moreover have "nominal 0 example_backoff (sconst (Fin 0 0)) = 0"
    by (simp add: nominal_0 example_backoff_def)
  moreover have "sint (expLimit example_backoff) < sint (Millisecond * 64000)"
    by (simp add: example_backoff_def Millisecond_def)
  ultimately show ?thesis
    by (simp add: example_nominals example_nominals(1) [unfolded One_nat_def])
qed

section \<open>Rounding to the nearest floating-point number\<close>

text \<open>
  The error of one rounding: a number of magnitude at most \<open>2 ^ K\<close> is rounded to a
  finite \<^verbatim>\<open>float64\<close> that is at most \<open>2 ^ (K - 53)\<close> away and has the same sign.
\<close>

lemma valof_Fin: "valof (Fin m e) = real_of_int m * 2 powr real_of_int e"
  by (simp add: valof_def)

lemma shift_rne_nonneg: "0 \<le> a \<Longrightarrow> 0 \<le> shift_rne a k"
  by (simp add: shift_rne_def Let_def pos_imp_zdiv_nonneg_iff)

lemma shift_rne_err:
  "\<bar>real_of_int (shift_rne a k) - real_of_int a / 2 ^ k\<bar> \<le> 1 / 2"
proof -
  define q r where "q = a div 2 ^ k" and "r = a mod 2 ^ k"
  have a: "a = q * 2 ^ k + r"
    using div_mult_mod_eq [of a "2 ^ k"] by (simp add: q_def r_def)
  have r: "0 \<le> r" "r < 2 ^ k"
    by (simp_all add: r_def)
  define R where "R = real_of_int r / 2 ^ k"
  have eq: "real_of_int a / 2 ^ k = real_of_int q + R"
    by (simp add: a R_def field_simps)
  have R: "0 \<le> R" "R < 1"
    using r by (simp_all add: R_def)
  have up: "2 ^ k < 2 * r \<longleftrightarrow> 1 / 2 < R"
  proof -
    have "2 ^ k < 2 * r \<longleftrightarrow> (2::real) ^ k < 2 * real_of_int r"
      by (metis (mono_tags) of_int_less_iff of_int_mult of_int_numeral of_int_power)
    then show ?thesis by (simp add: R_def field_simps)
  qed
  have tie: "2 * r = 2 ^ k \<longleftrightarrow> R = 1 / 2"
  proof -
    have "2 * r = 2 ^ k \<longleftrightarrow> 2 * real_of_int r = (2::real) ^ k"
      by (metis (mono_tags) of_int_eq_iff of_int_mult of_int_numeral of_int_power)
    then show ?thesis by (auto simp: R_def field_simps)
  qed
  have s: "shift_rne a k = (if 1 / 2 < R then q + 1 else if R = 1 / 2 \<and> q mod 2 = 1 then q + 1 else q)"
    by (simp add: shift_rne_def Let_def up tie flip: q_def r_def)
  show ?thesis
    unfolding eq s using R by (auto simp: abs_if)
qed

lemma shift_rne_exact: "shift_rne (c * 2 ^ k) k = c"
  by (simp add: shift_rne_def Let_def)

lemma bitlen_powr:
  "0 < a \<Longrightarrow> 2 powr real_of_int (bitlen a - 1) \<le> real_of_int a
     \<and> real_of_int a < 2 powr real_of_int (bitlen a)"
proof -
  assume h: "0 < a"
  then have b: "1 \<le> bitlen a"
    by (simp add: bitlen_alt_def)
  have l: "(2::real) ^ nat (bitlen a - 1) \<le> real_of_int a"
    using bitlen_bounds [OF h]
    by (metis of_int_le_iff of_int_numeral of_int_power)
  have u: "real_of_int a < (2::real) ^ nat (bitlen a)"
    using bitlen_bounds [OF h]
    by (metis of_int_less_iff of_int_numeral of_int_power)
  have "(2::real) ^ nat (bitlen a - 1) = 2 powr real_of_int (bitlen a - 1)"
    using b by (simp add: powr_realpow [symmetric])
  moreover have "(2::real) ^ nat (bitlen a) = 2 powr real_of_int (bitlen a)"
    using b by (simp add: powr_realpow [symmetric])
  ultimately show ?thesis using l u by simp
qed

lemma pow_nat_powr: "0 \<le> k \<Longrightarrow> (2::real) ^ nat k = 2 powr real_of_int k"
  by (simp add: powr_realpow [symmetric])

lemma powr2_le: "2 powr real_of_int i \<le> 2 powr real_of_int j \<longleftrightarrow> i \<le> j"
  by simp

lemma powr2_less: "2 powr real_of_int i < 2 powr real_of_int j \<longleftrightarrow> i < j"
  by simp

lemma abs_rv: "\<bar>real_of_int m * 2 powr real_of_int e\<bar> = real_of_int \<bar>m\<bar> * 2 powr real_of_int e"
  by (simp add: abs_mult)

lemma magnitude_exponent:
  assumes "0 < a" and "real_of_int a * 2 powr real_of_int e \<le> 2 powr real_of_int K"
  shows "bitlen a - 1 + e \<le> K"
proof -
  have "2 powr real_of_int (bitlen a - 1 + e)
      = 2 powr real_of_int (bitlen a - 1) * 2 powr real_of_int e"
    by (simp add: powr_add)
  also have "\<dots> \<le> real_of_int a * 2 powr real_of_int e"
    using bitlen_powr [OF assms(1)] by (intro mult_right_mono) auto
  finally have "2 powr real_of_int (bitlen a - 1 + e) \<le> real_of_int a * 2 powr real_of_int e" .
  then have "2 powr real_of_int (bitlen a - 1 + e) \<le> 2 powr real_of_int K"
    using assms(2) by (rule order_trans)
  then show ?thesis by (simp only: powr2_le)
qed

lemma abs_scale: "0 \<le> (p::real) \<Longrightarrow> \<bar>x * p - y * p\<bar> = \<bar>x - y\<bar> * p"
proof -
  assume "0 \<le> p"
  have "x * p - y * p = (x - y) * p"
    by (simp add: left_diff_distrib)
  then show ?thesis
    using \<open>0 \<le> p\<close> by (simp add: abs_mult)
qed

lemma fl64_cases:
  "k = max (bitlen \<bar>m\<bar> - 53) (- 1074 - e) \<Longrightarrow>
   fl64 m e =
     (if k \<le> 0
      then (if 0 < \<bar>m\<bar> \<and> 1024 < bitlen \<bar>m\<bar> + e then overflow m else Fin m e)
      else (if 1024 < bitlen (shift_rne \<bar>m\<bar> (nat k)) + (e + k) then overflow m
            else Fin (sgn m * shift_rne \<bar>m\<bar> (nat k)) (e + k)))"
  by (simp only: fl64_def Let_def)

lemma fl64_approx:
  assumes x: "\<bar>real_of_int m * 2 powr real_of_int e\<bar> \<le> 2 powr real_of_int K"
    and K: "- 1022 \<le> K" "K \<le> 1022"
  shows "is_finite (fl64 m e)
    \<and> \<bar>valof (fl64 m e) - real_of_int m * 2 powr real_of_int e\<bar> \<le> 2 powr real_of_int (K - 53)
    \<and> (0 \<le> real_of_int m * 2 powr real_of_int e \<longrightarrow> 0 \<le> valof (fl64 m e))"
proof -
  have sg: "0 \<le> real_of_int m * 2 powr real_of_int e \<longleftrightarrow> 0 \<le> m"
    by (simp add: zero_le_mult_iff)
  define a where "a = \<bar>m\<bar>"
  define k where "k = max (bitlen a - 53) (- 1074 - e)"
  have fl: "fl64 m e =
     (if k \<le> 0
      then (if 0 < a \<and> 1024 < bitlen a + e then overflow m else Fin m e)
      else (if 1024 < bitlen (shift_rne a (nat k)) + (e + k) then overflow m
            else Fin (sgn m * shift_rne a (nat k)) (e + k)))"
    unfolding a_def by (rule fl64_cases) (simp add: k_def a_def)
  have ax: "real_of_int a * 2 powr real_of_int e \<le> 2 powr real_of_int K"
    using x by (simp add: abs_rv a_def)
  have a0: "0 \<le> a" by (simp add: a_def)
  have mag: "0 < a \<Longrightarrow> bitlen a - 1 + e \<le> K"
    using ax by (rule magnitude_exponent [rotated])
  show ?thesis
  proof (cases "k \<le> 0")
    case True
    have "\<not> (0 < a \<and> 1024 < bitlen a + e)"
      using mag K by auto
    then have "fl64 m e = Fin m e"
      using True by (auto simp: fl)
    then show ?thesis
      by (simp add: is_finite_def valof_Fin)
  next
    case False
    then have kpos: "0 < k" by simp
    define q where "q = shift_rne a (nat k)"
    define E where "E = e + k"
    have q0: "0 \<le> q"
      using a0 by (simp add: q_def shift_rne_nonneg)
    have "\<bar>real_of_int q - real_of_int a / 2 ^ nat k\<bar> \<le> 1 / 2"
      unfolding q_def by (rule shift_rne_err)
    then have qerr: "\<bar>real_of_int q - real_of_int a / 2 powr real_of_int k\<bar> \<le> 1 / 2"
      using kpos by (simp add: pow_nat_powr)
    have half: "E - 1 \<le> K - 53"
    proof (cases "bitlen a - 53 \<le> - 1074 - e")
      case True
      then have "k = - 1074 - e" by (simp add: k_def)
      then show ?thesis using K by (simp add: E_def)
    next
      case False
      then have kk: "k = bitlen a - 53" by (simp add: k_def)
      then have "0 < a"
        using kpos a0 by (cases "a = 0") auto
      then show ?thesis using mag kk by (simp add: E_def)
    qed
    have split: "real_of_int a * 2 powr real_of_int e
        = (real_of_int a / 2 powr real_of_int k) * 2 powr real_of_int E"
      by (simp add: E_def powr_add)
    have "\<bar>real_of_int q * 2 powr real_of_int E - real_of_int a * 2 powr real_of_int e\<bar>
        = \<bar>real_of_int q - real_of_int a / 2 powr real_of_int k\<bar> * 2 powr real_of_int E"
      unfolding split by (rule abs_scale) simp
    also have "\<dots> \<le> 1 / 2 * 2 powr real_of_int E"
      using qerr by (intro mult_right_mono) auto
    also have "\<dots> = 2 powr real_of_int (E - 1)"
      by (simp add: powr_diff)
    also have "\<dots> \<le> 2 powr real_of_int (K - 53)"
      using half by (simp only: powr2_le)
    finally have err: "\<bar>real_of_int q * 2 powr real_of_int E
        - real_of_int a * 2 powr real_of_int e\<bar> \<le> 2 powr real_of_int (K - 53)" .
    have noov: "\<not> 1024 < bitlen q + E"
    proof (cases "0 < q")
      case False
      then have "q = 0" using q0 by simp
      then show ?thesis using half K by simp
    next
      case True
      have "real_of_int q * 2 powr real_of_int E
          \<le> real_of_int a * 2 powr real_of_int e + 2 powr real_of_int (K - 53)"
        using err by (simp add: abs_le_iff)
      also have "\<dots> \<le> 2 powr real_of_int K + 2 powr real_of_int (K - 53)"
        using ax by simp
      also have "\<dots> \<le> 2 powr real_of_int K + 2 powr real_of_int K"
        by (intro add_left_mono) simp
      also have "\<dots> = 2 powr real_of_int (K + 1)"
        by (simp add: powr_add)
      finally have "real_of_int q * 2 powr real_of_int E \<le> 2 powr real_of_int (K + 1)" .
      then have "bitlen q - 1 + E \<le> K + 1"
        using True by (intro magnitude_exponent)
      then show ?thesis using K by simp
    qed
    have res: "fl64 m e = Fin (sgn m * q) E"
      using kpos noov by (simp add: fl E_def q_def)
    have m: "real_of_int m = real_of_int (sgn m) * real_of_int a"
      by (simp add: a_def sgn_if)
    have "\<bar>valof (fl64 m e) - real_of_int m * 2 powr real_of_int e\<bar>
        = \<bar>real_of_int (sgn m) * (real_of_int q * 2 powr real_of_int E
            - real_of_int a * 2 powr real_of_int e)\<bar>"
      unfolding res valof_Fin by (subst m) (simp add: algebra_simps)
    also have "\<dots> \<le> \<bar>real_of_int q * 2 powr real_of_int E
            - real_of_int a * 2 powr real_of_int e\<bar>"
      by (simp add: abs_mult sgn_if)
    finally have "\<bar>valof (fl64 m e) - real_of_int m * 2 powr real_of_int e\<bar>
        \<le> 2 powr real_of_int (K - 53)"
      using err by simp
    moreover have "0 \<le> m \<Longrightarrow> 0 \<le> valof (fl64 m e)"
      using q0 by (simp add: res valof_Fin sgn_if)
    ultimately show ?thesis
      by (simp add: res is_finite_def sg)
  qed
qed

lemma is_finite_Fin [simp]: "is_finite (Fin m e)"
  by (simp add: is_finite_def)

lemma fmul_approx:
  assumes "is_finite x" and "is_finite y"
    and "\<bar>valof x * valof y\<bar> \<le> 2 powr real_of_int K" and "- 1022 \<le> K" and "K \<le> 1022"
  shows "is_finite (fmul x y)
    \<and> \<bar>valof (fmul x y) - valof x * valof y\<bar> \<le> 2 powr real_of_int (K - 53)
    \<and> (0 \<le> valof x * valof y \<longrightarrow> 0 \<le> valof (fmul x y))"
proof -
  obtain m1 e1 m2 e2 where xy: "x = Fin m1 e1" "y = Fin m2 e2"
    using assms(1,2) by (cases x; cases y) (simp_all add: is_finite_def)
  have p: "valof x * valof y = real_of_int (m1 * m2) * 2 powr real_of_int (e1 + e2)"
    by (simp add: xy valof_Fin powr_add)
  show ?thesis
    using fl64_approx [of "m1 * m2" "e1 + e2" K] assms(3-5)
    unfolding p by (simp add: xy)
qed

lemma fadd_approx:
  assumes "is_finite x" and "is_finite y"
    and "\<bar>valof x + valof y\<bar> \<le> 2 powr real_of_int K" and "- 1022 \<le> K" and "K \<le> 1022"
  shows "is_finite (fadd x y)
    \<and> \<bar>valof (fadd x y) - (valof x + valof y)\<bar> \<le> 2 powr real_of_int (K - 53)
    \<and> (0 \<le> valof x + valof y \<longrightarrow> 0 \<le> valof (fadd x y))"
proof -
  obtain m1 e1 m2 e2 where xy: "x = Fin m1 e1" "y = Fin m2 e2"
    using assms(1,2) by (cases x; cases y) (simp_all add: is_finite_def)
  let ?e = "min e1 e2"
  have s1: "real_of_int (scaled m1 e1 ?e) * 2 powr real_of_int ?e = valof x"
    by (simp add: real_scaled xy powr_minus)
  have s2: "real_of_int (scaled m2 e2 ?e) * 2 powr real_of_int ?e = valof y"
    by (simp add: real_scaled xy powr_minus)
  have p: "valof x + valof y =
      real_of_int (scaled m1 e1 ?e + scaled m2 e2 ?e) * 2 powr real_of_int ?e"
    using s1 s2 by (simp add: algebra_simps)
  show ?thesis
    using fl64_approx [of "scaled m1 e1 ?e + scaled m2 e2 ?e" ?e K] assms(3-5)
    unfolding p by (simp add: xy)
qed

lemma fneg_valof: "is_finite y \<Longrightarrow> is_finite (fneg y) \<and> valof (fneg y) = - valof y"
  by (cases y) (simp_all add: is_finite_def valof_Fin)

lemma fsub_approx:
  assumes "is_finite x" and "is_finite y"
    and "\<bar>valof x - valof y\<bar> \<le> 2 powr real_of_int K" and "- 1022 \<le> K" and "K \<le> 1022"
  shows "is_finite (fsub x y)
    \<and> \<bar>valof (fsub x y) - (valof x - valof y)\<bar> \<le> 2 powr real_of_int (K - 53)
    \<and> (0 \<le> valof x - valof y \<longrightarrow> 0 \<le> valof (fsub x y))"
  using fadd_approx [of x "fneg y" K] fneg_valof [of y] assms
  by (simp add: fsub_def)

section \<open>The value returned by a call\<close>

lemma powr_consts:
  "2 powr real_of_int (- 1) = 1 / 2" "2 powr real_of_int 0 = 1" "2 powr real_of_int 1 = 2"
  "2 powr real_of_int (- 1 - 53) = 1 / 2 ^ 54" "2 powr real_of_int (0 - 53) = 1 / 2 ^ 53"
  "2 powr real_of_int (1 - 53) = 1 / 2 ^ 52"
  by (simp_all add: powr_minus_divide)

lemma jitter_approx:
  assumes u: "unit_interval u" and jf: "unit_interval jf"
  shows "is_finite (fadd (Fin 1 0) (fmul (fsub u (Fin 1 (- 1))) jf))
    \<and> 0 \<le> valof (fadd (Fin 1 0) (fmul (fsub u (Fin 1 (- 1))) jf))
    \<and> \<bar>valof (fadd (Fin 1 0) (fmul (fsub u (Fin 1 (- 1))) jf))
        - (1 + (valof u - 1 / 2) * valof jf)\<bar> \<le> 7 / 2 ^ 54"
proof -
  define t1 where "t1 = fsub u (Fin 1 (- 1))"
  define t2 where "t2 = fmul t1 jf"
  define j where "j = fadd (Fin 1 0) t2"
  have h: "valof (Fin 1 (- 1)) = 1 / 2"
    by (simp add: valof_Fin powr_minus_divide)
  have ub: "is_finite u" "0 \<le> valof u" "valof u < 1"
    using u by (simp_all add: unit_interval_def)
  have jb: "is_finite jf" "0 \<le> valof jf" "valof jf < 1"
    using jf by (simp_all add: unit_interval_def)
  have "\<bar>valof u - valof (Fin 1 (- 1))\<bar> \<le> 2 powr real_of_int (- 1)"
    using ub unfolding h powr_consts abs_le_iff by simp
  from fsub_approx [OF ub(1) is_finite_Fin this]
  have t1: "is_finite t1" "\<bar>valof t1 - (valof u - 1 / 2)\<bar> \<le> 1 / 2 ^ 54"
    by (simp_all add: t1_def h powr_minus_divide)
  have t1b: "\<bar>valof t1\<bar> \<le> 1 / 2 + 1 / 2 ^ 54"
    using t1(2) ub unfolding abs_le_iff by simp
  have p1: "\<bar>valof t1 * valof jf\<bar> \<le> 1 / 2 + 1 / 2 ^ 54"
  proof -
    have "\<bar>valof t1 * valof jf\<bar> = \<bar>valof t1\<bar> * valof jf"
      using jb by (simp add: abs_mult)
    also have "\<dots> \<le> \<bar>valof t1\<bar> * 1"
      using jb by (intro mult_left_mono) auto
    finally show ?thesis using t1b by simp
  qed
  then have "\<bar>valof t1 * valof jf\<bar> \<le> 2 powr real_of_int 0"
    by (simp add: powr_consts)
  from fmul_approx [OF t1(1) jb(1) this]
  have t2: "is_finite t2" "\<bar>valof t2 - valof t1 * valof jf\<bar> \<le> 1 / 2 ^ 53"
    by (simp_all add: t2_def powr_minus_divide)
  have t2b: "\<bar>valof t2\<bar> \<le> 1 / 2 + 1 / 2 ^ 54 + 1 / 2 ^ 53"
    using t2(2) p1 unfolding abs_le_iff by simp
  have one: "valof (Fin 1 0) = 1"
    by simp
  have s: "\<bar>valof (Fin 1 0) + valof t2\<bar> \<le> 2 powr real_of_int 1" "0 \<le> valof (Fin 1 0) + valof t2"
    using t2b unfolding one powr_consts abs_le_iff by simp_all
  from fadd_approx [OF is_finite_Fin t2(1) s(1)] s(2)
  have j: "is_finite j" "\<bar>valof j - (1 + valof t2)\<bar> \<le> 1 / 2 ^ 52" "0 \<le> valof j"
    by (simp_all add: j_def powr_minus_divide)
  have d: "\<bar>valof t1 * valof jf - (valof u - 1 / 2) * valof jf\<bar> \<le> 1 / 2 ^ 54"
  proof -
    have "\<bar>valof t1 * valof jf - (valof u - 1 / 2) * valof jf\<bar>
        = \<bar>valof t1 - (valof u - 1 / 2)\<bar> * valof jf"
      using jb by (intro abs_scale)
    also have "\<dots> \<le> \<bar>valof t1 - (valof u - 1 / 2)\<bar> * 1"
      using jb by (intro mult_left_mono) auto
    finally show ?thesis using t1(2) by simp
  qed
  have "\<bar>valof j - (1 + (valof u - 1 / 2) * valof jf)\<bar> \<le> 7 / 2 ^ 54"
    using j(2) t2(2) d unfolding abs_le_iff by simp
  then show ?thesis
    using j by (simp add: j_def t2_def t1_def)
qed

lemma fl64_zero: "\<exists>e'. fl64 0 e = Fin 0 e'"
  by (simp add: fl64_cases [OF refl] shift_rne_def)

text \<open>
  C9. With a delay of 0, a jitter factor in \<open>[0, 1)\<close> and a random draw in \<open>[0, 1)\<close>,
  \<^verbatim>\<open>computeDelay\<close> returns exactly 0: the jitter multiplier is finite, its product
  with zero is zero, and zero rounds and converts to 0.
\<close>

theorem zero_delay_returns_zero:
  assumes "delay b = 0" and "unit_interval (jitterFactor b)" and "unit_interval (shd r)"
  shows "fst (computeDelay b r) = Some 0"
proof -
  have "is_finite (fadd (Fin 1 0) (fmul (fsub (shd r) (Fin 1 (- 1))) (jitterFactor b)))"
    using jitter_approx [OF assms(3) assms(2)] by simp
  then obtain mj ej
    where j: "fadd (Fin 1 0) (fmul (fsub (shd r) (Fin 1 (- 1))) (jitterFactor b)) = Fin mj ej"
    by (auto simp: is_finite_def split: float64.splits)
  have z: "float64_of_int64 (delay b) = Fin 0 0"
    using assms(1) by (simp add: float64_of_int64_def fl64_cases [OF refl])
  obtain e' where d: "fl64 0 ej = Fin 0 e'"
    using fl64_zero [of ej] by blast
  have "int_of_float64 (math_Round (Fin 0 e')) = Some 0"
    by (simp add: trunc_zero_def)
  then show ?thesis
    by (simp add: computeDelay_result j z d)
qed

theorem zero_delay_returns_zero_witness:
  "delay \<lparr>delay = 0, baseDelay = 5, expLimit = 10, jitterFactor = defaultJitterFactor\<rparr> = 0
   \<and> unit_interval defaultJitterFactor \<and> unit_interval (Fin 3 (- 2))
   \<and> fst (computeDelay
         \<lparr>delay = 0, baseDelay = 5, expLimit = 10, jitterFactor = defaultJitterFactor\<rparr>
         (sconst (Fin 3 (- 2)))) = Some 0"
proof -
  have a: "unit_interval defaultJitterFactor" "unit_interval (Fin 3 (- 2))"
    by (simp_all add: unit_interval_def defaultJitterFactor_def valof_Fin powr_minus_divide)
  show ?thesis
    using a zero_delay_returns_zero
      [of "\<lparr>delay = 0, baseDelay = 5, expLimit = 10, jitterFactor = defaultJitterFactor\<rparr>"
          "sconst (Fin 3 (- 2))"]
    by simp
qed

lemma sint_word_of_int:
  "- (2 ^ 63) \<le> N \<Longrightarrow> N < 2 ^ 63 \<Longrightarrow> sint (word_of_int N :: 64 word) = N"
  by (simp add: sint_sbintrunc' signed_take_bit_int_eq_self)

lemma half_up_err:
  assumes "0 \<le> a"
  shows "\<bar>real_of_int ((2 * a + 2 ^ n) div (2 * 2 ^ n)) - real_of_int a / 2 ^ n\<bar> \<le> 1 / 2"
    and "0 \<le> (2 * a + 2 ^ n) div (2 * 2 ^ n)"
proof -
  let ?y = "real_of_int a / 2 ^ n"
  have "real_of_int ((2 * a + 2 ^ n) div (2 * 2 ^ n))
      = real_of_int \<lfloor>real_of_int (2 * a + 2 ^ n) / real_of_int (2 * 2 ^ n)\<rfloor>"
    by (simp only: floor_divide_of_int_eq)
  also have "real_of_int (2 * a + 2 ^ n) / real_of_int (2 * 2 ^ n) = ?y + 1 / 2"
    by (simp add: field_simps)
  finally have eq: "real_of_int ((2 * a + 2 ^ n) div (2 * 2 ^ n)) = real_of_int \<lfloor>?y + 1 / 2\<rfloor>" .
  have "real_of_int \<lfloor>?y + 1 / 2\<rfloor> \<le> ?y + 1 / 2" "?y + 1 / 2 < real_of_int \<lfloor>?y + 1 / 2\<rfloor> + 1"
    by linarith+
  then show "\<bar>real_of_int ((2 * a + 2 ^ n) div (2 * 2 ^ n)) - ?y\<bar> \<le> 1 / 2"
    unfolding eq by linarith
  show "0 \<le> (2 * a + 2 ^ n) div (2 * 2 ^ n)"
    using assms by (simp add: pos_imp_zdiv_nonneg_iff)
qed

lemma round_convert:
  assumes "\<bar>valof (Fin m e)\<bar> \<le> 2 ^ 63 - 1"
  shows "\<exists>N. int_of_float64 (math_Round (Fin m e)) = Some (word_of_int N)
    \<and> sint (word_of_int N :: 64 word) = N
    \<and> \<bar>real_of_int N - valof (Fin m e)\<bar> \<le> 1 / 2
    \<and> (0 \<le> m \<longrightarrow> 0 \<le> N)"
proof -
  define N where "N = (if 0 \<le> e then m * 2 ^ nat e
     else sgn m * ((2 * \<bar>m\<bar> + 2 ^ nat (- e)) div (2 * 2 ^ nat (- e))))"
  have conv: "int_of_float64 (math_Round (Fin m e)) =
      (if - (2 ^ 63) \<le> N \<and> N < 2 ^ 63 then Some (word_of_int N) else None)"
    by (simp add: N_def trunc_zero_def)
  have err: "\<bar>real_of_int N - valof (Fin m e)\<bar> \<le> 1 / 2"
  proof (cases "0 \<le> e")
    case True
    then have "real_of_int N = valof (Fin m e)"
      by (simp add: N_def valof_Fin pow_nat_powr)
    then show ?thesis by simp
  next
    case False
    define n where "n = nat (- e)"
    define Q where "Q = (2 * \<bar>m\<bar> + 2 ^ n) div (2 * 2 ^ n)"
    have p: "2 powr real_of_int e = 1 / 2 ^ n"
      using False pow_nat_powr [of "- e"] by (simp add: n_def powr_minus_divide)
    have q: "\<bar>real_of_int Q - real_of_int \<bar>m\<bar> / 2 ^ n\<bar> \<le> 1 / 2"
      unfolding Q_def by (rule half_up_err) simp
    have "real_of_int N - valof (Fin m e)
        = real_of_int (sgn m) * (real_of_int Q - real_of_int \<bar>m\<bar> / 2 ^ n)"
      using False by (simp add: N_def Q_def n_def valof_Fin p sgn_if algebra_simps)
    then have "\<bar>real_of_int N - valof (Fin m e)\<bar>
        \<le> \<bar>real_of_int Q - real_of_int \<bar>m\<bar> / 2 ^ n\<bar>"
      by (simp add: abs_mult sgn_if)
    then show ?thesis using q by simp
  qed
  have sign: "0 \<le> m \<Longrightarrow> 0 \<le> N"
    using half_up_err(2) [of "\<bar>m\<bar>" "nat (- e)"] by (simp add: N_def sgn_if)
  have "\<bar>real_of_int N\<bar> \<le> 2 ^ 63 - 1 / 2"
    using err assms unfolding abs_le_iff by simp
  then have "\<bar>real_of_int N\<bar> < real_of_int (2 ^ 63)"
    by simp
  then have "\<bar>N\<bar> < 2 ^ 63"
    by (simp only: of_int_abs [symmetric] of_int_less_iff)
  then have range: "- (2 ^ 63) \<le> N" "N < 2 ^ 63"
    by simp_all
  show ?thesis
    using conv range err sign sint_word_of_int [OF range]
    by (intro exI [of _ N]) simp
qed

lemma float64_of_int64_approx:
  assumes "\<bar>real_of_int (sint n)\<bar> \<le> 2 powr real_of_int K" and "- 1022 \<le> K" and "K \<le> 1022"
  shows "is_finite (float64_of_int64 n)
    \<and> \<bar>valof (float64_of_int64 n) - real_of_int (sint n)\<bar> \<le> 2 powr real_of_int (K - 53)
    \<and> (0 \<le> sint n \<longrightarrow> 0 \<le> valof (float64_of_int64 n))"
  using fl64_approx [of "sint n" 0 K] assms
  by (simp add: float64_of_int64_def del: of_int_sint)

lemma ideal_multiplier_bounds:
  fixes u jf :: real
  assumes "0 \<le> u" and "u < 1" and "0 \<le> jf"
  shows "1 - jf / 2 \<le> 1 + (u - 1 / 2) * jf" and "1 + (u - 1 / 2) * jf \<le> 1 + jf / 2"
proof -
  have "(- 1 / 2) * jf \<le> (u - 1 / 2) * jf"
    using assms by (intro mult_right_mono) auto
  then show "1 - jf / 2 \<le> 1 + (u - 1 / 2) * jf" by simp
  have "(u - 1 / 2) * jf \<le> (1 / 2) * jf"
    using assms by (intro mult_right_mono) auto
  then show "1 + (u - 1 / 2) * jf \<le> 1 + jf / 2" by simp
qed

lemma valof_sign: "0 \<le> valof (Fin m e) \<longleftrightarrow> 0 \<le> m"
  by (simp add: valof_Fin zero_le_mult_iff)

text \<open>
  C10, as amended. With a delay between 0 and \<open>2 ^ 62\<close> ns, a jitter factor in
  \<open>[0, 1)\<close> and a random draw in \<open>[0, 1)\<close>, \<^verbatim>\<open>computeDelay\<close> returns a duration
  that is not negative: the multiplier is not negative, the product stays below
  \<open>2 ^ 63\<close>, and the conversion to an integer is defined.
\<close>

theorem returned_delay_nonneg:
  assumes d0: "0 \<le> sint (delay b)" and d1: "sint (delay b) \<le> 2 ^ 62"
    and jf: "unit_interval (jitterFactor b)" and u: "unit_interval (shd r)"
  shows "\<exists>ret. fst (computeDelay b r) = Some ret \<and> 0 \<le> sint ret"
proof -
  define j where "j = fadd (Fin 1 0) (fmul (fsub (shd r) (Fin 1 (- 1))) (jitterFactor b))"
  define f where "f = float64_of_int64 (delay b)"
  define d where "d = fmul f j"
  let ?m = "1 + (valof (shd r) - 1 / 2) * valof (jitterFactor b)"
  have j: "is_finite j" "0 \<le> valof j" "\<bar>valof j - ?m\<bar> \<le> 7 / 2 ^ 54"
    using jitter_approx [OF u jf] by (simp_all add: j_def)
  have ub: "0 \<le> valof (shd r)" "valof (shd r) < 1"
    and jb: "0 \<le> valof (jitterFactor b)" "valof (jitterFactor b) < 1"
    using u jf by (simp_all add: unit_interval_def)
  have "?m \<le> 1 + valof (jitterFactor b) / 2"
    using ub jb by (intro ideal_multiplier_bounds)
  then have jle: "valof j \<le> 3 / 2 + 7 / 2 ^ 54"
    using j(3) jb unfolding abs_le_iff by simp
  have "\<bar>real_of_int (sint (delay b))\<bar> \<le> 2 powr real_of_int 62"
    using d0 d1 by (simp add: powr_numeral del: of_int_sint flip: of_int_le_iff)
  from float64_of_int64_approx [OF this] d0
  have f: "is_finite f" "\<bar>valof f - real_of_int (sint (delay b))\<bar> \<le> 2 ^ 9" "0 \<le> valof f"
    by (simp_all add: f_def powr_numeral del: of_int_sint)
  have "real_of_int (sint (delay b)) \<le> 2 ^ 62"
    using d1 by (simp del: of_int_sint flip: of_int_le_iff)
  then have fle: "valof f \<le> 2 ^ 62 + 2 ^ 9"
    using f(2) unfolding abs_le_iff by simp
  have p0: "0 \<le> valof f * valof j"
    using f(3) j(2) by simp
  have "valof f * valof j \<le> (2 ^ 62 + 2 ^ 9) * (3 / 2 + 7 / 2 ^ 54)"
    using fle jle f(3) j(2) by (intro mult_mono) auto
  also have "\<dots> \<le> 2 ^ 63 - 2 ^ 11"
    by simp
  finally have ple: "valof f * valof j \<le> 2 ^ 63 - 2 ^ 11" .
  then have "\<bar>valof f * valof j\<bar> \<le> 2 powr real_of_int 63"
    using p0 by (simp add: powr_numeral)
  from fmul_approx [OF f(1) j(1) this] p0
  have d: "is_finite d" "\<bar>valof d - valof f * valof j\<bar> \<le> 2 ^ 10" "0 \<le> valof d"
    by (simp_all add: d_def powr_numeral)
  obtain md ed where fin: "d = Fin md ed"
    using d(1) by (auto simp: is_finite_def split: float64.splits)
  have "\<bar>valof (Fin md ed)\<bar> \<le> 2 ^ 63 - 1"
    using d(2,3) ple unfolding fin abs_le_iff by simp
  from round_convert [OF this] obtain N
    where N: "int_of_float64 (math_Round (Fin md ed)) = Some (word_of_int N)"
      "sint (word_of_int N :: 64 word) = N" "0 \<le> md \<longrightarrow> 0 \<le> N"
    by blast
  have "0 \<le> md"
    using d(3) by (simp add: fin valof_sign)
  then show ?thesis
    using N by (simp add: computeDelay_result flip: j_def f_def d_def fin)
qed

theorem returned_delay_nonneg_witness:
  "0 \<le> sint (500000000 :: 64 word) \<and> sint (500000000 :: 64 word) \<le> 2 ^ 62
   \<and> unit_interval defaultJitterFactor \<and> unit_interval (Fin 3 (- 2))
   \<and> fst (computeDelay
         \<lparr>delay = 500000000, baseDelay = 5, expLimit = 10, jitterFactor = defaultJitterFactor\<rparr>
         (sconst (Fin 3 (- 2)))) = Some 537500000
   \<and> 0 \<le> sint (537500000 :: 64 word)"
proof -
  have a: "unit_interval defaultJitterFactor" "unit_interval (Fin 3 (- 2))"
    by (simp_all add: unit_interval_def defaultJitterFactor_def valof_Fin powr_minus_divide)
  have "int_of_float64 (math_Round (fmul (float64_of_int64 500000000)
      (fadd (Fin 1 0) (fmul (fsub (Fin 3 (- 2)) (Fin 1 (- 1))) defaultJitterFactor))))
      = Some 537500000"
    by code_simp
  then have c: "fst (computeDelay
         \<lparr>delay = 500000000, baseDelay = 5, expLimit = 10, jitterFactor = defaultJitterFactor\<rparr>
         (sconst (Fin 3 (- 2)))) = Some 537500000"
    by (simp add: computeDelay_result)
  show ?thesis
    using a c returned_delay_nonneg
      [of "\<lparr>delay = 500000000, baseDelay = 5, expLimit = 10,
            jitterFactor = defaultJitterFactor\<rparr>" "sconst (Fin 3 (- 2))"]
    by simp
qed

text \<open>
  For a delay near \<open>2 ^ 63\<close> the property fails: with the largest delay, a jitter factor of
  \<open>1 / 2\<close> and a draw of \<open>3 / 4\<close> the product is \<open>1.125 * 2 ^ 63\<close>, which no
  \<^verbatim>\<open>int64\<close> holds, so the language promises no value for the conversion.
\<close>

theorem returned_delay_conversion_counterexample:
  "0 \<le> sint (9223372036854775807 :: 64 word)
   \<and> unit_interval (Fin 1 (- 1)) \<and> unit_interval (Fin 3 (- 2))
   \<and> fst (computeDelay
         \<lparr>delay = 9223372036854775807, baseDelay = defaultBaseDelay,
          expLimit = defaultExpLimit, jitterFactor = Fin 1 (- 1)\<rparr>
         (sconst (Fin 3 (- 2)))) = None"
proof -
  have a: "unit_interval (Fin 1 (- 1))" "unit_interval (Fin 3 (- 2))"
    by (simp_all add: unit_interval_def valof_Fin powr_minus_divide)
  have "int_of_float64 (math_Round (fmul (float64_of_int64 9223372036854775807)
      (fadd (Fin 1 0) (fmul (fsub (Fin 3 (- 2)) (Fin 1 (- 1))) (Fin 1 (- 1)))))) = None"
    by code_simp
  then have "fst (computeDelay
         \<lparr>delay = 9223372036854775807, baseDelay = defaultBaseDelay,
          expLimit = defaultExpLimit, jitterFactor = Fin 1 (- 1)\<rparr>
         (sconst (Fin 3 (- 2)))) = None"
    by (simp add: computeDelay_result)
  then show ?thesis
    using a by simp
qed

section \<open>Exact results\<close>

lemma float64_of_int64_exact:
  assumes "0 \<le> sint n" and "sint n < 2 ^ 53"
  shows "float64_of_int64 n = Fin (sint n) 0"
proof -
  have "bitlen (sint n) \<le> 53"
    using assms(2) by (simp add: bitlen_le_iff_power)
  then show ?thesis
    using assms(1) by (simp add: float64_of_int64_def fl64_cases [OF refl])
qed

lemma fl64_exact_scaled:
  assumes "0 < m0" and "bitlen m0 \<le> 53"
  shows "\<exists>i'. fl64 (m0 * 2 ^ i) (- int i) = Fin (m0 * 2 ^ i') (- int i')"
proof -
  define k where "k = max (bitlen \<bar>m0 * 2 ^ i\<bar> - 53) (- 1074 - (- int i))"
  have a: "\<bar>m0 * 2 ^ i\<bar> = m0 * 2 ^ i"
    using assms(1) by (simp add: abs_mult)
  have bl: "bitlen (m0 * 2 ^ i) = bitlen m0 + int i"
    using assms(1) by simp
  have kle: "k \<le> int i"
    using assms(2) by (simp add: k_def a bl)
  show ?thesis
  proof (cases "k \<le> 0")
    case True
    have "fl64 (m0 * 2 ^ i) (- int i) = Fin (m0 * 2 ^ i) (- int i)"
      using True assms by (simp add: fl64_cases [OF k_def] a bl)
    then show ?thesis by blast
  next
    case False
    define c where "c = i - nat k"
    have i: "i = c + nat k"
      using kle False by (simp add: c_def)
    have sp: "m0 * 2 ^ i = (m0 * 2 ^ c) * 2 ^ nat k"
      by (simp add: i power_add)
    have q: "shift_rne (m0 * 2 ^ i) (nat k) = m0 * 2 ^ c"
      unfolding sp by (rule shift_rne_exact)
    have blq: "bitlen (m0 * 2 ^ c) = bitlen m0 + int c"
      using assms(1) by simp
    have e: "k - int i = - int c"
      using False by (simp add: i)
    have "fl64 (m0 * 2 ^ i) (- int i) = Fin (m0 * 2 ^ c) (- int c)"
      using False assms by (simp add: fl64_cases [OF k_def] a q blq e)
    then show ?thesis by blast
  qed
qed

lemma round_exact_scaled:
  assumes "0 < m0" and "m0 < 2 ^ 63"
  shows "int_of_float64 (math_Round (Fin (m0 * 2 ^ i) (- int i))) = Some (word_of_int m0)"
proof (cases "i = 0")
  case True
  then show ?thesis using assms by (simp add: trunc_zero_def)
next
  case False
  have "2 * (m0 * 2 ^ i) + 2 ^ i = (2 * m0 + 1) * 2 ^ i"
    by (simp add: algebra_simps)
  then have "(2 * \<bar>m0 * 2 ^ i\<bar> + 2 ^ i) div (2 * 2 ^ i) = (2 * m0 + 1) div 2"
    using assms(1) by (simp add: abs_mult)
  also have "\<dots> = m0"
    by simp
  finally have "math_Round (Fin (m0 * 2 ^ i) (- int i)) = Fin m0 0"
    using False assms(1) by (simp add: sgn_if)
  then show ?thesis
    using assms by (simp add: trunc_zero_def)
qed

lemma fsub_half_finite: "unit_interval u \<Longrightarrow> is_finite (fsub u (Fin 1 (- 1)))"
proof -
  assume u: "unit_interval u"
  have h: "valof (Fin 1 (- 1)) = 1 / 2"
    by (simp add: valof_Fin powr_minus_divide)
  have "\<bar>valof u - valof (Fin 1 (- 1))\<bar> \<le> 2 powr real_of_int (- 1)"
    using u unfolding h powr_consts abs_le_iff unit_interval_def by simp
  from fsub_approx [OF _ is_finite_Fin this] u show ?thesis
    by (simp add: unit_interval_def)
qed

lemma jitter_zero_factor:
  assumes u: "unit_interval u" and z: "is_finite jf" "valof jf = 0"
  shows "\<exists>i. fadd (Fin 1 0) (fmul (fsub u (Fin 1 (- 1))) jf) = Fin (2 ^ i) (- int i)"
proof -
  obtain mj ej where jf: "jf = Fin mj ej"
    using z(1) by (auto simp: is_finite_def split: float64.splits)
  have mj: "mj = 0"
    using z(2) by (simp add: jf valof_Fin)
  obtain m1 e1 where t1: "fsub u (Fin 1 (- 1)) = Fin m1 e1"
    using fsub_half_finite [OF u] by (auto simp: is_finite_def split: float64.splits)
  obtain e2 where t2: "fl64 0 (e1 + ej) = Fin 0 e2"
    using fl64_zero [of "e1 + ej"] by blast
  define i where "i = nat (- min 0 e2)"
  have e: "min 0 e2 = - int i"
    by (simp add: i_def)
  have sc: "scaled 1 0 (- int i) = 2 ^ i" "scaled 0 e2 (- int i) = 0"
    by (simp_all add: scaled_def)
  have "bitlen 1 \<le> 53"
    by (simp add: bitlen_le_iff_power)
  from fl64_exact_scaled [OF _ this, of i] obtain i'
    where "fl64 (1 * 2 ^ i) (- int i) = Fin (1 * 2 ^ i') (- int i')"
    by auto
  then have "fadd (Fin 1 0) (fmul (fsub u (Fin 1 (- 1))) jf) = Fin (2 ^ i') (- int i')"
    by (simp add: t1 jf mj t2 sc e)
  then show ?thesis by blast
qed

lemma floor_ceiling_within_one:
  fixes x lo hi :: real
  assumes "\<bar>real_of_int N - x\<bar> < 1" and "lo \<le> x" and "x \<le> hi"
  shows "\<lfloor>lo\<rfloor> \<le> N" and "N \<le> \<lceil>hi\<rceil>"
proof -
  have "lo < real_of_int (N + 1)"
    using assms(1,2) by (simp add: abs_less_iff)
  then have "\<lfloor>lo\<rfloor> < N + 1"
    by (simp only: floor_less_iff)
  then show "\<lfloor>lo\<rfloor> \<le> N" by simp
  have "real_of_int (N - 1) < hi"
    using assms(1,3) by (simp add: abs_less_iff)
  then have "N - 1 < \<lceil>hi\<rceil>"
    by (simp only: less_ceiling_iff)
  then show "N \<le> \<lceil>hi\<rceil>" by simp
qed

lemma jittered_delay_bounds:
  assumes jf: "unit_interval (jitterFactor b)" and u: "unit_interval (shd r)"
    and D: "D = sint (delay b)" "0 < D" "D \<le> 2 ^ 49"
  shows "\<exists>ret. fst (computeDelay b r) = Some ret
    \<and> \<lfloor>real_of_int D * (1 - valof (jitterFactor b) / 2)\<rfloor> \<le> sint ret
    \<and> sint ret \<le> \<lceil>real_of_int D * (1 + valof (jitterFactor b) / 2)\<rceil>"
proof -
  define j where "j = fadd (Fin 1 0) (fmul (fsub (shd r) (Fin 1 (- 1))) (jitterFactor b))"
  define d where "d = fmul (Fin D 0) j"
  let ?m = "1 + (valof (shd r) - 1 / 2) * valof (jitterFactor b)"
  have f: "float64_of_int64 (delay b) = Fin D 0"
    using D by (intro float64_of_int64_exact [of "delay b", folded D(1)]) auto
  have rD: "0 < real_of_int D" "real_of_int D \<le> 2 ^ 49"
    using D(2,3) by (simp_all flip: of_int_le_iff)
  have vf: "valof (Fin D 0) = real_of_int D"
    by (simp add: valof_Fin)
  have j: "is_finite j" "0 \<le> valof j" "\<bar>valof j - ?m\<bar> \<le> 7 / 2 ^ 54"
    using jitter_approx [OF u jf] by (simp_all add: j_def)
  have ub: "0 \<le> valof (shd r)" "valof (shd r) < 1"
    and jb: "0 \<le> valof (jitterFactor b)" "valof (jitterFactor b) < 1"
    using u jf by (simp_all add: unit_interval_def)
  have m: "1 - valof (jitterFactor b) / 2 \<le> ?m" "?m \<le> 1 + valof (jitterFactor b) / 2"
    using ub jb by (intro ideal_multiplier_bounds; simp)+
  have jle: "valof j \<le> 2"
    using j(3) m(2) jb unfolding abs_le_iff by simp
  have p0: "0 \<le> real_of_int D * valof j"
    using rD j(2) by simp
  have "real_of_int D * valof j \<le> 2 ^ 49 * 2"
    using rD jle j(2) by (intro mult_mono) auto
  then have ple: "real_of_int D * valof j \<le> 2 ^ 50"
    by simp
  then have "\<bar>valof (Fin D 0) * valof j\<bar> \<le> 2 powr real_of_int 50"
    using p0 by (simp add: vf powr_numeral)
  from fmul_approx [OF is_finite_Fin j(1) this]
  have d: "is_finite d" "\<bar>valof d - real_of_int D * valof j\<bar> \<le> 1 / 8"
    by (simp_all add: d_def vf powr_minus_divide)
  have e2: "\<bar>real_of_int D * valof j - real_of_int D * ?m\<bar> \<le> 7 / 32"
  proof -
    have "\<bar>real_of_int D * valof j - real_of_int D * ?m\<bar>
        = \<bar>valof j - ?m\<bar> * real_of_int D"
      using rD abs_scale [of "real_of_int D" "valof j" ?m] by (simp add: mult.commute)
    also have "\<dots> \<le> (7 / 2 ^ 54) * 2 ^ 49"
      using j(3) rD by (intro mult_mono) auto
    finally show ?thesis by simp
  qed
  obtain md ed where fin: "d = Fin md ed"
    using d(1) by (auto simp: is_finite_def split: float64.splits)
  have "\<bar>valof (Fin md ed)\<bar> \<le> 2 ^ 63 - 1"
    using d(2) ple p0 unfolding fin abs_le_iff by simp
  from round_convert [OF this] obtain N
    where N: "int_of_float64 (math_Round (Fin md ed)) = Some (word_of_int N)"
      "sint (word_of_int N :: 64 word) = N" "\<bar>real_of_int N - valof (Fin md ed)\<bar> \<le> 1 / 2"
    by blast
  have near: "\<bar>real_of_int N - real_of_int D * ?m\<bar> < 1"
    using N(3) d(2) e2 unfolding fin by linarith
  have lo: "real_of_int D * (1 - valof (jitterFactor b) / 2) \<le> real_of_int D * ?m"
    using m(1) rD by (intro mult_left_mono) auto
  have hi: "real_of_int D * ?m \<le> real_of_int D * (1 + valof (jitterFactor b) / 2)"
    using m(2) rD by (intro mult_left_mono) auto
  have "fst (computeDelay b r) = Some (word_of_int N)"
    using N(1) by (simp add: computeDelay_result f flip: j_def d_def fin)
  then show ?thesis
    using N(2) floor_ceiling_within_one [OF near lo hi] by simp
qed

lemma no_jitter_exact:
  assumes jf: "is_finite (jitterFactor b)" "valof (jitterFactor b) = 0"
    and u: "unit_interval (shd r)"
    and D: "0 < sint (delay b)" "sint (delay b) < 2 ^ 53"
  shows "fst (computeDelay b r) = Some (delay b)"
proof -
  define D where "D = sint (delay b)"
  have Dp: "0 < D" "D < 2 ^ 53"
    using D by (simp_all add: D_def)
  have f: "float64_of_int64 (delay b) = Fin D 0"
    unfolding D_def using D by (intro float64_of_int64_exact) auto
  obtain i where j: "fadd (Fin 1 0) (fmul (fsub (shd r) (Fin 1 (- 1))) (jitterFactor b))
      = Fin (2 ^ i) (- int i)"
    using jitter_zero_factor [OF u jf] by blast
  have "bitlen D \<le> 53"
    using Dp(2) by (simp add: bitlen_le_iff_power)
  from fl64_exact_scaled [OF Dp(1) this, of i] obtain i'
    where d: "fl64 (D * 2 ^ i) (- int i) = Fin (D * 2 ^ i') (- int i')"
    by blast
  have "D < 2 ^ 63"
    using Dp(2) by simp
  from round_exact_scaled [OF Dp(1) this, of i']
  have "fst (computeDelay b r) = Some (word_of_int D)"
    by (simp add: computeDelay_result f j d)
  then show ?thesis
    by (simp add: D_def)
qed

text \<open>
  C5, as amended. With a jitter factor \<open>j\<close> in \<open>[0, 1)\<close>, a random draw in \<open>[0, 1)\<close>
  and a delay \<open>d0 > 0\<close>: when \<open>d0\<close> is at most \<open>2 ^ 49\<close> ns, the returned value lies
  between \<open>d0 * (1 - j / 2)\<close> rounded down and \<open>d0 * (1 + j / 2)\<close> rounded up to a whole
  nanosecond; and when \<open>j = 0\<close> and \<open>d0\<close> is below \<open>2 ^ 53\<close> ns, the returned value is
  exactly \<open>d0\<close>.
\<close>

theorem jitter_bounds:
  assumes "unit_interval (jitterFactor b)" and "unit_interval (shd r)"
    and "0 < sint (delay b)"
  shows "(sint (delay b) \<le> 2 ^ 49 \<longrightarrow>
      (\<exists>ret. fst (computeDelay b r) = Some ret
        \<and> \<lfloor>real_of_int (sint (delay b)) * (1 - valof (jitterFactor b) / 2)\<rfloor> \<le> sint ret
        \<and> sint ret \<le> \<lceil>real_of_int (sint (delay b)) * (1 + valof (jitterFactor b) / 2)\<rceil>))
    \<and> (sint (delay b) < 2 ^ 53 \<and> valof (jitterFactor b) = 0 \<longrightarrow>
        fst (computeDelay b r) = Some (delay b))"
proof (intro conjI impI)
  assume "sint (delay b) \<le> 2 ^ 49"
  with assms show "\<exists>ret. fst (computeDelay b r) = Some ret
        \<and> \<lfloor>real_of_int (sint (delay b)) * (1 - valof (jitterFactor b) / 2)\<rfloor> \<le> sint ret
        \<and> sint ret \<le> \<lceil>real_of_int (sint (delay b)) * (1 + valof (jitterFactor b) / 2)\<rceil>"
    by (intro jittered_delay_bounds) auto
next
  assume "sint (delay b) < 2 ^ 53 \<and> valof (jitterFactor b) = 0"
  with assms show "fst (computeDelay b r) = Some (delay b)"
    by (intro no_jitter_exact) (auto simp: unit_interval_def)
qed

theorem jitter_bounds_witness:
  "unit_interval defaultJitterFactor \<and> unit_interval (Fin 0 0) \<and> unit_interval (Fin 3 (- 2))
   \<and> 0 < sint (500000000 :: 64 word) \<and> sint (500000000 :: 64 word) \<le> 2 ^ 49
   \<and> fst (computeDelay
         \<lparr>delay = 500000000, baseDelay = 5, expLimit = 10, jitterFactor = defaultJitterFactor\<rparr>
         (sconst (Fin 3 (- 2)))) = Some 537500000
   \<and> \<lfloor>real_of_int (sint (500000000 :: 64 word)) * (1 - valof defaultJitterFactor / 2)\<rfloor>
       \<le> sint (537500000 :: 64 word)
   \<and> sint (537500000 :: 64 word)
       \<le> \<lceil>real_of_int (sint (500000000 :: 64 word)) * (1 + valof defaultJitterFactor / 2)\<rceil>
   \<and> valof (Fin 0 0) = 0
   \<and> fst (computeDelay
         \<lparr>delay = 500000000, baseDelay = 5, expLimit = 10, jitterFactor = Fin 0 0\<rparr>
         (sconst (Fin 3 (- 2)))) = Some 500000000"
proof -
  have a: "unit_interval defaultJitterFactor" "unit_interval (Fin 0 0)"
    "unit_interval (Fin 3 (- 2))"
    by (simp_all add: unit_interval_def defaultJitterFactor_def valof_Fin powr_minus_divide)
  have "int_of_float64 (math_Round (fmul (float64_of_int64 500000000)
      (fadd (Fin 1 0) (fmul (fsub (Fin 3 (- 2)) (Fin 1 (- 1))) defaultJitterFactor))))
      = Some 537500000"
    by code_simp
  then have c: "fst (computeDelay
         \<lparr>delay = 500000000, baseDelay = 5, expLimit = 10, jitterFactor = defaultJitterFactor\<rparr>
         (sconst (Fin 3 (- 2)))) = Some 537500000"
    by (simp add: computeDelay_result)
  have d: "0 < sint (500000000 :: 64 word)" "sint (500000000 :: 64 word) \<le> 2 ^ 49"
    "sint (500000000 :: 64 word) < 2 ^ 53"
    by simp_all
  show ?thesis
    using a c d
      jitter_bounds [of "\<lparr>delay = 500000000, baseDelay = 5, expLimit = 10,
        jitterFactor = defaultJitterFactor\<rparr>" "sconst (Fin 3 (- 2))"]
      jitter_bounds [of "\<lparr>delay = 500000000, baseDelay = 5, expLimit = 10,
        jitterFactor = Fin 0 0\<rparr>" "sconst (Fin 3 (- 2))"]
    by (simp del: of_int_sint)
qed

text \<open>
  Beyond \<open>2 ^ 53\<close> the property of the specification fails, since \<^verbatim>\<open>float64\<close> keeps 53 bits: with a jitter
  factor of 0 and a delay of \<open>2 ^ 53 + 1\<close> ns the call returns \<open>2 ^ 53\<close> ns, which is not
  the delay, and is below the interval, here the single point \<open>d0\<close>.
\<close>

theorem large_delay_not_exact_counterexample:
  "unit_interval (Fin 0 0) \<and> unit_interval (Fin 3 (- 2))
   \<and> 0 < sint (9007199254740993 :: 64 word)
   \<and> fst (computeDelay
         \<lparr>delay = 9007199254740993, baseDelay = defaultBaseDelay,
          expLimit = defaultExpLimit, jitterFactor = Fin 0 0\<rparr>
         (sconst (Fin 3 (- 2)))) = Some 9007199254740992
   \<and> sint (9007199254740992 :: 64 word)
       < \<lfloor>real_of_int (sint (9007199254740993 :: 64 word)) * (1 - valof (Fin 0 0) / 2)\<rfloor>"
proof -
  have a: "unit_interval (Fin 0 0)" "unit_interval (Fin 3 (- 2))"
    by (simp_all add: unit_interval_def valof_Fin powr_minus_divide)
  have "int_of_float64 (math_Round (fmul (float64_of_int64 9007199254740993)
      (fadd (Fin 1 0) (fmul (fsub (Fin 3 (- 2)) (Fin 1 (- 1))) (Fin 0 0)))))
      = Some 9007199254740992"
    by code_simp
  then have "fst (computeDelay
         \<lparr>delay = 9007199254740993, baseDelay = defaultBaseDelay,
          expLimit = defaultExpLimit, jitterFactor = Fin 0 0\<rparr>
         (sconst (Fin 3 (- 2)))) = Some 9007199254740992"
    by (simp add: computeDelay_result)
  then show ?thesis
    using a by simp
qed

end
